theory Spec2Isabelle
  imports Main "HOL-Library.AList"
begin

section \<open>Python strings and slices\<close>

text \<open>
  A Python \<open>str\<close> is a sequence of Unicode code points and \<open>len\<close> counts code points,
  so a string is modelled as a list of code points (natural numbers).  Literals of the
  source are written \<open>str ''...''\<close>.
\<close>

type_synonym pystr = "nat list"

definition str :: "string \<Rightarrow> pystr" where
  "str cs = map of_char cs"

definition NL :: nat where
  "NL = 10"

definition SP :: nat where
  "SP = 32"

text \<open>
  Slice bounds as Python normalises them: a negative bound counts from the end, and every
  bound is clamped to \<open>0 .. len\<close>.
\<close>

definition py_index :: "nat \<Rightarrow> int \<Rightarrow> nat" where
  "py_index n i = (if i < 0 then nat (max 0 (int n + i)) else min (nat i) n)"

definition slice_to :: "'a list \<Rightarrow> int \<Rightarrow> 'a list" where
  \<comment> \<open>\<open>xs[:i]\<close>\<close>
  "slice_to xs i = take (py_index (length xs) i) xs"

definition slice_from :: "'a list \<Rightarrow> int \<Rightarrow> 'a list" where
  \<comment> \<open>\<open>xs[i:]\<close>\<close>
  "slice_from xs i = drop (py_index (length xs) i) xs"

text \<open>The highest position of \<open>c\<close> in \<open>xs\<close>, or \<open>-1\<close>.\<close>

fun last_index :: "'a \<Rightarrow> 'a list \<Rightarrow> int" where
  "last_index c [] = -1"
| "last_index c (x # xs) =
     (let r = last_index c xs
      in if 0 \<le> r then r + 1 else if x = c then 0 else -1)"

definition rfind :: "pystr \<Rightarrow> nat \<Rightarrow> int \<Rightarrow> int" where
  \<comment> \<open>\<open>text.rfind(c, 0, e)\<close> for a one-character \<open>c\<close>\<close>
  "rfind text c e = last_index c (slice_to text e)"

definition lstrip_chars :: "nat list \<Rightarrow> pystr \<Rightarrow> pystr" where
  \<comment> \<open>\<open>text.lstrip(chars)\<close>\<close>
  "lstrip_chars chars text = dropWhile (\<lambda>c. c \<in> set chars) text"

text \<open>
  The code points for which \<open>str.isspace\<close> holds; \<open>strip()\<close> and \<open>lstrip()\<close> without
  argument remove exactly these.
\<close>

definition is_space :: "nat \<Rightarrow> bool" where
  "is_space c \<longleftrightarrow>
     (9 \<le> c \<and> c \<le> 13) \<or> (28 \<le> c \<and> c \<le> 32) \<or> c = 133 \<or> c = 160 \<or> c = 5760 \<or>
     (8192 \<le> c \<and> c \<le> 8202) \<or> c = 8232 \<or> c = 8233 \<or> c = 8239 \<or> c = 8287 \<or> c = 12288"

text \<open>Truthiness of an optional string: \<open>None\<close> and \<open>""\<close> are both false.\<close>

definition truthy :: "pystr option \<Rightarrow> pystr option" where
  "truthy x = (case x of None \<Rightarrow> None | Some s \<Rightarrow> if s = [] then None else Some s)"

text \<open>\<open>str(i)\<close> for an integer, as an f-string formats it.\<close>

fun digits :: "nat \<Rightarrow> pystr" where
  "digits n = (if n < 10 then [48 + n] else digits (n div 10) @ [48 + n mod 10])"

definition str_of_int :: "int \<Rightarrow> pystr" where
  "str_of_int i = (if i < 0 then 45 # digits (nat (- i)) else digits (nat i))"

definition lstrip :: "pystr \<Rightarrow> pystr" where
  "lstrip text = dropWhile is_space text"

definition rstrip :: "pystr \<Rightarrow> pystr" where
  "rstrip text = rev (dropWhile is_space (rev text))"

definition strip :: "pystr \<Rightarrow> pystr" where
  "strip text = rstrip (lstrip text)"

section \<open>whatsapp\_sender.py: the text splitter\<close>

definition MAX_TEXT :: int where
  "MAX_TEXT = 4096"

definition MAX_CAPTION :: int where
  "MAX_CAPTION = 1024"

text \<open>
  The \<open>while text:\<close> loop of \<open>_split_text\<close>.  With a limit that is not positive the loop
  may run forever, so the result is optional: \<open>None\<close> is a call that does not return.
\<close>

partial_function (option) split_loop :: "pystr \<Rightarrow> int \<Rightarrow> pystr list \<Rightarrow> pystr list option" where
  "split_loop text limit chunks =
     (if text = [] then Some chunks
      else if int (length text) \<le> limit then Some (chunks @ [text])
      else
        let cut = rfind text NL limit;
            cut = (if cut \<le> 0 then rfind text SP limit else cut);
            cut = (if cut \<le> 0 then limit else cut)
        in split_loop (lstrip_chars [NL, SP] (slice_from text cut)) limit
             (chunks @ [slice_to text cut]))"

declare split_loop.simps [code]

definition split_text :: "pystr \<Rightarrow> int \<Rightarrow> pystr list option" where
  "split_text text limit =
     (if int (length text) \<le> limit then Some [text] else split_loop text limit [])"

text \<open>The cut position one round of the loop computes.\<close>

definition cut_point :: "pystr \<Rightarrow> int \<Rightarrow> int" where
  "cut_point text limit =
     (let cut = rfind text NL limit;
          cut = (if cut \<le> 0 then rfind text SP limit else cut);
          cut = (if cut \<le> 0 then limit else cut)
      in cut)"


section \<open>whatsapp\_sender.py: WhatsAppSender\<close>

text \<open>
  The sender posts requests over HTTP.  The server is a collaborator: its answer to a
  request may depend on everything posted before, so it is a function of the request log
  (the request in question last).  A response carries its error status
  (\<open>raise_for_status\<close> raises when it is set) and the \<open>id\<close> field of its body when
  there is one.  A text message is the recipient and the body; a media message is the
  recipient, the media type, the media id and the caption if the payload has one; an upload
  is the mime type, the file name and the bytes.
\<close>

type_synonym bytes = "nat list"

datatype error = HTTPStatusError | KeyError | IndexError

datatype request =
    TextMessage pystr pystr
  | MediaMessage pystr pystr pystr "pystr option"
  | MediaUpload pystr pystr bytes

datatype response = Response (is_error: bool) (json_id: "pystr option")

type_synonym http = "request list \<Rightarrow> response"

text \<open>
  Every method returns its outcome together with the requests it posted, in order.  The
  parameter \<open>sent\<close> is the log of the requests posted before the call.
\<close>

fun post_chunks ::
  "http \<Rightarrow> pystr \<Rightarrow> request list \<Rightarrow> pystr list \<Rightarrow> (error + response list) \<times> request list" where
  "post_chunks server recipient sent [] = (Inr [], [])"
| "post_chunks server recipient sent (chunk # chunks) =
     (let payload = TextMessage recipient chunk;
          response = server (sent @ [payload])
      in if is_error response then (Inl HTTPStatusError, [payload])
         else
           (case post_chunks server recipient (sent @ [payload]) chunks of
              (Inl e, posted) \<Rightarrow> (Inl e, payload # posted)
            | (Inr results, posted) \<Rightarrow> (Inr (response # results), payload # posted)))"

definition send_text ::
  "http \<Rightarrow> pystr \<Rightarrow> request list \<Rightarrow> pystr \<Rightarrow> ((error + response list) \<times> request list) option" where
  "send_text server recipient sent text =
     (case split_text text MAX_TEXT of
        None \<Rightarrow> None
      | Some chunks \<Rightarrow> Some (post_chunks server recipient sent chunks))"

definition upload_media ::
  "http \<Rightarrow> request list \<Rightarrow> bytes \<Rightarrow> pystr \<Rightarrow> pystr \<Rightarrow> (error + pystr) \<times> request list" where
  "upload_media server sent file_bytes mime_type filename =
     (let request = MediaUpload mime_type filename file_bytes;
          response = server (sent @ [request])
      in if is_error response then (Inl HTTPStatusError, [request])
         else
           (case json_id response of
              None \<Rightarrow> (Inl KeyError, [request])
            | Some media_id \<Rightarrow> (Inr media_id, [request])))"

text \<open>
  The first part of \<open>send_media\<close>: the caption put into the media object and the overflow
  kept for a follow-up text.
\<close>

definition split_caption :: "pystr \<Rightarrow> pystr option \<Rightarrow> pystr option \<times> pystr option" where
  "split_caption media_type caption =
     (case truthy caption of
        None \<Rightarrow> (None, None)
      | Some c \<Rightarrow>
          if media_type \<in> {str ''image'', str ''video'', str ''document''} then
            if int (length c) > MAX_CAPTION then
              (let cut = rfind c SP MAX_CAPTION;
                   cut = (if cut \<le> 0 then MAX_CAPTION else cut)
               in (Some (slice_to c cut), Some (lstrip (slice_from c cut))))
            else (Some c, None)
          else (None, None))"

definition send_media ::
  "http \<Rightarrow> pystr \<Rightarrow> request list \<Rightarrow> pystr \<Rightarrow> pystr \<Rightarrow> pystr option \<Rightarrow>
     ((error + response list) \<times> request list) option" where
  "send_media server recipient sent media_type media_id caption =
     (let (media_caption, overflow) = split_caption media_type caption;
          payload = MediaMessage recipient media_type media_id media_caption;
          response = server (sent @ [payload])
      in if is_error response then Some (Inl HTTPStatusError, [payload])
         else
           (case truthy overflow of
              None \<Rightarrow> Some (Inr [response], [payload])
            | Some rest \<Rightarrow>
                (case send_text server recipient (sent @ [payload]) rest of
                   None \<Rightarrow> None
                 | Some (Inl e, posted) \<Rightarrow> Some (Inl e, payload # posted)
                 | Some (Inr results, posted) \<Rightarrow> Some (Inr (response # results), payload # posted))))"

section \<open>content\_filter.py: ContentFilter\<close>

datatype Action = FORWARD | SKIP

datatype FilterDecision = FilterDecision Action pystr

datatype FilterResult = FilterResult (action: Action) (reason: pystr) (filter_name: pystr)

datatype FilterRule = FilterRule (name: pystr) (prompt: pystr)

record LLMConfig =
  api_key :: pystr
  model :: pystr
  filters :: "FilterRule list"

text \<open>
  The language-model client is a collaborator.  A call of
  \<open>client.beta.chat.completions.parse\<close> followed by reading the parsed decision either
  raises some \<open>Exception\<close> or yields a decision; the client is a function of the model
  name, the system prompt and the user text.
\<close>

datatype client_error = ClientException

type_synonym client = "pystr \<Rightarrow> pystr \<Rightarrow> pystr \<Rightarrow> client_error + FilterDecision"

datatype filter_event =
    ParseCall pystr pystr pystr
  | LogInfo pystr Action pystr
  | LogException pystr

definition BASE_SYSTEM_PROMPT :: "pystr \<Rightarrow> pystr" where
  "BASE_SYSTEM_PROMPT rule_prompt =
     str ''You are a content filter for a Telegram-to-WhatsApp message forwarder.'' @ [NL] @
     str ''Analyze the message and decide if it should be forwarded or skipped based on the following rule:'' @
     [NL, NL] @ rule_prompt"

text \<open>The body of the \<open>try\<close> block of \<open>_run_filter\<close>.\<close>

definition run_filter_try ::
  "LLMConfig \<Rightarrow> client \<Rightarrow> pystr \<Rightarrow> pystr \<Rightarrow> pystr \<Rightarrow> client_error + FilterResult" where
  "run_filter_try config cl rule_name system_prompt text =
     (case cl (model config) system_prompt text of
        Inl e \<Rightarrow> Inl e
      | Inr (FilterDecision a r) \<Rightarrow> Inr (FilterResult a r rule_name))"

definition run_filter ::
  "LLMConfig \<Rightarrow> client \<Rightarrow> pystr \<Rightarrow> pystr \<Rightarrow> pystr \<Rightarrow>
     (client_error + FilterResult) \<times> filter_event list" where
  "run_filter config cl rule_name rule_prompt text =
     (let system_prompt = BASE_SYSTEM_PROMPT rule_prompt;
          call = ParseCall (model config) system_prompt text
      in case run_filter_try config cl rule_name system_prompt text of
           Inr result \<Rightarrow> (Inr result, [call])
         | Inl e \<Rightarrow>
             (Inr (FilterResult FORWARD (str ''Filter error'') rule_name),
              [call, LogException rule_name]))"

text \<open>The \<open>for rule in self.config.filters\<close> loop of \<open>evaluate\<close> and its final return.\<close>

fun evaluate_rules ::
  "LLMConfig \<Rightarrow> client \<Rightarrow> pystr \<Rightarrow> FilterRule list \<Rightarrow>
     (client_error + FilterResult) \<times> filter_event list" where
  "evaluate_rules config cl text [] =
     (Inr (FilterResult FORWARD (str ''Passed all filters'') (str ''all'')), [])"
| "evaluate_rules config cl text (rule # rules) =
     (case run_filter config cl (name rule) (prompt rule) text of
        (Inl e, events) \<Rightarrow> (Inl e, events)
      | (Inr decision, events) \<Rightarrow>
          (let logged = events @ [LogInfo (name rule) (action decision) (reason decision)]
           in if action decision = SKIP then (Inr decision, logged)
              else
                (case evaluate_rules config cl text rules of
                   (outcome, later) \<Rightarrow> (outcome, logged @ later))))"

definition evaluate ::
  "LLMConfig \<Rightarrow> client \<Rightarrow> pystr \<Rightarrow> (client_error + FilterResult) \<times> filter_event list" where
  "evaluate config cl text =
     (if text = [] \<or> strip text = [] then
        (Inr (FilterResult FORWARD (str ''No text to analyze'') (str ''none'')), [])
      else if filters config = [] then
        (Inr (FilterResult FORWARD (str ''No filters configured'') (str ''none'')), [])
      else evaluate_rules config cl text (filters config))"

subsection \<open>Observations on a filter run\<close>

text \<open>What the client answers for a rule, whether that answer is a skip, the call the
  pipeline makes for a rule, and the calls among the events of a run.\<close>

definition verdict :: "LLMConfig \<Rightarrow> client \<Rightarrow> FilterRule \<Rightarrow> pystr \<Rightarrow> client_error + FilterDecision" where
  "verdict config cl rule text = cl (model config) (BASE_SYSTEM_PROMPT (prompt rule)) text"

definition skips :: "LLMConfig \<Rightarrow> client \<Rightarrow> FilterRule \<Rightarrow> pystr \<Rightarrow> bool" where
  "skips config cl rule text =
     (case verdict config cl rule text of Inr (FilterDecision SKIP r) \<Rightarrow> True | _ \<Rightarrow> False)"

definition call_of :: "LLMConfig \<Rightarrow> pystr \<Rightarrow> FilterRule \<Rightarrow> filter_event" where
  "call_of config text rule = ParseCall (model config) (BASE_SYSTEM_PROMPT (prompt rule)) text"

fun is_call :: "filter_event \<Rightarrow> bool" where
  "is_call (ParseCall m s t) = True"
| "is_call _ = False"

text \<open>The events of the pipeline for one rule that does not end the loop or that ends it:
  the call, the logged failure if the client raises, and the logged verdict.\<close>

definition rule_events :: "LLMConfig \<Rightarrow> client \<Rightarrow> pystr \<Rightarrow> FilterRule \<Rightarrow> filter_event list" where
  "rule_events config cl text rule =
     (case verdict config cl rule text of
        Inl e \<Rightarrow>
          [call_of config text rule, LogException (name rule),
           LogInfo (name rule) FORWARD (str ''Filter error'')]
      | Inr (FilterDecision a why) \<Rightarrow> [call_of config text rule, LogInfo (name rule) a why])"

subsection \<open>A configuration with three rules and a client for it\<close>

text \<open>The client raises on rule \<open>a\<close>, skips on rule \<open>b\<close> and forwards on rule \<open>c\<close>.\<close>

definition wit_config :: LLMConfig where
  "wit_config = \<lparr>api_key = str ''key'', model = str ''m'',
     filters = [FilterRule (str ''a'') (str ''pa''), FilterRule (str ''b'') (str ''pb''),
                FilterRule (str ''c'') (str ''pc'')]\<rparr>"

definition wit_client :: client where
  "wit_client m system_prompt user_text =
     (if system_prompt = BASE_SYSTEM_PROMPT (str ''pb'') then Inr (FilterDecision SKIP (str ''ads''))
      else if system_prompt = BASE_SYSTEM_PROMPT (str ''pc'') then Inr (FilterDecision FORWARD (str ''ok''))
      else Inl ClientException)"

text \<open>The same client with the raising rule between two forwarding rules.\<close>

definition wit_config_fail_first :: LLMConfig where
  "wit_config_fail_first = wit_config\<lparr>filters :=
     [FilterRule (str ''c'') (str ''pc''), FilterRule (str ''a'') (str ''pa''),
      FilterRule (str ''c2'') (str ''pc'')]\<rparr>"

subsection \<open>Observations on posted requests\<close>

text \<open>A request respects the sink's limits when its text body has at most \<open>MAX_TEXT\<close>
  characters and its caption, if it has one, at most \<open>MAX_CAPTION\<close>.\<close>

fun within_limits :: "request \<Rightarrow> bool" where
  "within_limits (TextMessage recipient body) \<longleftrightarrow> int (length body) \<le> MAX_TEXT"
| "within_limits (MediaMessage recipient media_type media_id None) \<longleftrightarrow> True"
| "within_limits (MediaMessage recipient media_type media_id (Some c)) \<longleftrightarrow>
     int (length c) \<le> MAX_CAPTION"
| "within_limits (MediaUpload mime_type filename file_bytes) \<longleftrightarrow> True"

text \<open>The position at which \<open>send_media\<close> cuts a caption that is too long.\<close>

definition caption_cut :: "pystr \<Rightarrow> nat" where
  "caption_cut c =
     nat (let cut = rfind c SP MAX_CAPTION in if cut \<le> 0 then MAX_CAPTION else cut)"

text \<open>A server that accepts every request, and one that rejects every request.\<close>

definition accepting :: http where
  "accepting sent = Response False (Some (str ''media-1''))"

definition rejecting :: http where
  "rejecting sent = Response True None"

section \<open>router.py: MessageRouter\<close>

definition WA_SUPPORTED_MIMES :: "pystr list" where
  "WA_SUPPORTED_MIMES = map str
     [''audio/aac'', ''audio/mp4'', ''audio/mpeg'', ''audio/amr'', ''audio/ogg'', ''audio/opus'',
      ''application/vnd.ms-powerpoint'', ''application/msword'',
      ''application/vnd.openxmlformats-officedocument.wordprocessingml.document'',
      ''application/vnd.openxmlformats-officedocument.presentationml.presentation'',
      ''application/vnd.openxmlformats-officedocument.spreadsheetml.sheet'',
      ''application/pdf'', ''text/plain'', ''application/vnd.ms-excel'',
      ''image/jpeg'', ''image/png'', ''image/webp'',
      ''video/mp4'', ''video/3gpp'']"

subsection \<open>Messages of the feed\<close>

text \<open>
  The attribute classes \<open>_detect_media\<close> tests for, with the one field it reads of each
  (\<open>file_name\<close>, \<open>round_message\<close>, \<open>voice\<close>); every other attribute class is
  \<open>DocumentAttributeOther\<close>.
\<close>

datatype attribute =
    DocumentAttributeFilename pystr
  | DocumentAttributeVideo bool
  | DocumentAttributeAudio bool
  | DocumentAttributeSticker
  | DocumentAttributeAnimated
  | DocumentAttributeOther

record Document =
  mime_type :: "pystr option"
  attributes :: "attribute list"

record Message =
  msg_id :: int
  msg_text :: "pystr option"
  msg_date :: nat
  grouped_id :: "int option"
  photo :: bool
  document :: "Document option"

subsection \<open>Media classification\<close>

text \<open>The local variables of the attribute loop of \<open>_detect_media\<close>.\<close>

record scan =
  filename :: pystr
  is_voice :: bool
  is_video :: bool
  is_audio :: bool
  is_sticker :: bool
  is_gif :: bool

text \<open>One round of \<open>for attr in doc.attributes\<close>.\<close>

fun scan_attribute :: "scan \<Rightarrow> attribute \<Rightarrow> scan" where
  "scan_attribute s (DocumentAttributeFilename file_name) = s\<lparr>filename := file_name\<rparr>"
| "scan_attribute s (DocumentAttributeVideo round_message) =
     (if round_message then s\<lparr>is_video := True, filename := str ''video_note.mp4''\<rparr>
      else s\<lparr>is_video := True\<rparr>)"
| "scan_attribute s (DocumentAttributeAudio voice) =
     (if voice then s\<lparr>is_audio := True, is_voice := True, filename := str ''voice.ogg''\<rparr>
      else s\<lparr>is_audio := True\<rparr>)"
| "scan_attribute s DocumentAttributeSticker =
     s\<lparr>is_sticker := True, filename := str ''sticker.webp''\<rparr>"
| "scan_attribute s DocumentAttributeAnimated = s\<lparr>is_gif := True\<rparr>"
| "scan_attribute s DocumentAttributeOther = s"

definition detect_media :: "Message \<Rightarrow> (pystr \<times> pystr \<times> pystr) option" where
  "detect_media message =
     (if photo message then Some (str ''image'', str ''image/jpeg'', str ''photo.jpg'')
      else
        (case document message of
           None \<Rightarrow> None
         | Some doc \<Rightarrow>
             (let mime = (case truthy (mime_type doc) of
                            None \<Rightarrow> str ''application/octet-stream''
                          | Some m \<Rightarrow> m);
                  s = foldl scan_attribute
                        \<lparr>filename = str ''file'', is_voice = False, is_video = False,
                         is_audio = False, is_sticker = False, is_gif = False\<rparr>
                        (attributes doc)
              in if is_sticker s then Some (str ''sticker'', mime, filename s)
                 else if is_voice s then Some (str ''audio'', str ''audio/ogg'', filename s)
                 else if is_audio s then Some (str ''audio'', mime, filename s)
                 else if is_video s \<or> is_gif s then Some (str ''video'', mime, filename s)
                 else Some (str ''document'', mime, filename s))))"

subsection \<open>Headers, texts and captions\<close>

definition build_source_link :: "pystr option \<Rightarrow> int \<Rightarrow> pystr option" where
  "build_source_link username message_id =
     (case truthy username of
        None \<Rightarrow> None
      | Some u \<Rightarrow> Some (str ''https://t.me/'' @ u @ str ''/'' @ str_of_int message_id))"

text \<open>
  The formatting of a timestamp in local time,
  \<open>timestamp.astimezone().strftime("%Y-%m-%d %H:%M")\<close>, is a parameter \<open>fmt\<close>.
\<close>

definition format_header :: "(nat \<Rightarrow> pystr) \<Rightarrow> pystr \<Rightarrow> nat \<Rightarrow> pystr option \<Rightarrow> pystr" where
  "format_header fmt channel timestamp source_link =
     (let header = str ''['' @ channel @ str ''] '' @ fmt timestamp
      in case truthy source_link of
           None \<Rightarrow> header
         | Some link \<Rightarrow> header @ [NL] @ link)"

definition format_text :: "(nat \<Rightarrow> pystr) \<Rightarrow> pystr \<Rightarrow> nat \<Rightarrow> pystr \<Rightarrow> pystr option \<Rightarrow> pystr" where
  "format_text fmt channel timestamp text source_link =
     format_header fmt channel timestamp source_link @ [NL, NL] @ text"

definition format_caption ::
  "(nat \<Rightarrow> pystr) \<Rightarrow> pystr \<Rightarrow> nat \<Rightarrow> pystr option \<Rightarrow> pystr option \<Rightarrow> pystr" where
  "format_caption fmt channel timestamp text source_link =
     (let header = format_header fmt channel timestamp source_link
      in case truthy text of
           None \<Rightarrow> header
         | Some t \<Rightarrow> header @ [NL, NL] @ t)"

subsection \<open>The collaborators of the router\<close>

text \<open>
  The router awaits its collaborators: the chat and the media of a message, the content
  filter, and the three methods of the sender.  Their answers are the fields of a record;
  a sender method either returns or raises.  \<open>chat_username\<close> is the \<open>username\<close> of the chat
  \<open>get_chat\<close> returns; \<open>content_filter\<close> is \<open>None\<close> when no filter is configured and
  otherwise maps a text to the result of \<open>evaluate\<close>.  Every function of the router returns,
  with its outcome, the calls it made on its collaborators, in order.
\<close>

record world =
  chat_username :: "Message \<Rightarrow> pystr option"
  download_media :: "Message \<Rightarrow> bytes option"
  content_filter :: "(pystr \<Rightarrow> FilterResult) option"
  sender_send_text :: "pystr \<Rightarrow> error + unit"
  sender_upload_media :: "bytes \<Rightarrow> pystr \<Rightarrow> pystr \<Rightarrow> error + pystr"
  sender_send_media :: "pystr \<Rightarrow> pystr \<Rightarrow> pystr option \<Rightarrow> error + unit"
  local_time :: "nat \<Rightarrow> pystr"

datatype call =
    GetChat int
  | Evaluate pystr
  | DownloadMedia int
  | SendText pystr
  | UploadMedia bytes pystr pystr
  | SendMedia pystr pystr "pystr option"

text \<open>
  The filter block that \<open>_forward_single\<close> and \<open>_flush_album\<close> both start with.  The first
  component is \<open>Some\<close> outcome when the block returns from the function (a skip verdict) and
  \<open>None\<close> when the function goes on.
\<close>

definition skip_notice :: "pystr \<Rightarrow> FilterResult \<Rightarrow> pystr option \<Rightarrow> pystr" where
  "skip_notice channel result source_link =
     (let skip_msg = str ''[Skipped from '' @ channel @ str ''] ('' @ filter_name result @
                     str '') '' @ reason result
      in case truthy source_link of
           None \<Rightarrow> skip_msg
         | Some link \<Rightarrow> skip_msg @ [NL] @ link)"

definition filter_block ::
  "world \<Rightarrow> pystr \<Rightarrow> pystr option \<Rightarrow> pystr option \<Rightarrow> (error + unit) option \<times> call list" where
  "filter_block w channel text source_link =
     (case (truthy text, content_filter w) of
        (Some t, Some evaluate_text) \<Rightarrow>
          (let result = evaluate_text t
           in if action result = SKIP then
                (let skip_msg = skip_notice channel result source_link
                 in (Some (sender_send_text w skip_msg), [Evaluate t, SendText skip_msg]))
              else (None, [Evaluate t]))
      | _ \<Rightarrow> (None, []))"

text \<open>
  The notice for unsupported media.  Between \<open>") "\<close> and \<open>" view on Telegram"\<close> the
  literal of the source holds the three code points U+00E2, U+20AC and U+201D.
\<close>

definition unsupported_notice :: "pystr \<Rightarrow> pystr \<Rightarrow> pystr option \<Rightarrow> pystr" where
  "unsupported_notice channel mime source_link =
     (let skip_msg = str ''['' @ channel @ str ''] Unsupported media ('' @ mime @ str '') '' @
                     [226, 8364, 8221] @ str '' view on Telegram''
      in case truthy source_link of
           None \<Rightarrow> skip_msg
         | Some link \<Rightarrow> skip_msg @ [NL] @ link)"

definition forward_single :: "world \<Rightarrow> pystr \<Rightarrow> Message \<Rightarrow> (error + unit) \<times> call list" where
  "forward_single w channel message =
     (let timestamp = msg_date message;
          source_link = build_source_link (chat_username w message) (msg_id message);
          chat_call = [GetChat (msg_id message)]
      in case filter_block w channel (msg_text message) source_link of
           (Some outcome, calls) \<Rightarrow> (outcome, chat_call @ calls)
         | (None, calls) \<Rightarrow>
             (case detect_media message of
                None \<Rightarrow>
                  (case truthy (msg_text message) of
                     None \<Rightarrow> (Inr (), chat_call @ calls)
                   | Some t \<Rightarrow>
                       (let text = format_text (local_time w) channel timestamp t source_link
                        in (sender_send_text w text, chat_call @ calls @ [SendText text])))
              | Some (wa_type, mime, fname) \<Rightarrow>
                  if mime \<notin> set WA_SUPPORTED_MIMES then
                    (let skip_msg = unsupported_notice channel mime source_link
                     in (sender_send_text w skip_msg, chat_call @ calls @ [SendText skip_msg]))
                  else
                    (let caption = format_caption (local_time w) channel timestamp
                                     (msg_text message) source_link;
                         fetched = chat_call @ calls @ [DownloadMedia (msg_id message)]
                     in case download_media w message of
                          None \<Rightarrow>
                            (case truthy (msg_text message) of
                               None \<Rightarrow> (Inr (), fetched)
                             | Some t \<Rightarrow>
                                 (let text = format_text (local_time w) channel timestamp t
                                               source_link
                                  in (sender_send_text w text, fetched @ [SendText text])))
                        | Some file_bytes \<Rightarrow>
                            (case sender_upload_media w file_bytes mime fname of
                               Inl e \<Rightarrow> (Inl e, fetched @ [UploadMedia file_bytes mime fname])
                             | Inr media_id \<Rightarrow>
                                 (sender_send_media w wa_type media_id (Some caption),
                                  fetched @ [UploadMedia file_bytes mime fname,
                                             SendMedia wa_type media_id (Some caption)])))))"

text \<open>
  The loop \<open>for msg in messages\<close> of \<open>_flush_album\<close>.  It returns the final value of
  \<open>is_first\<close>, or the error a sender method raised.
\<close>

fun album_loop :: "world \<Rightarrow> pystr \<Rightarrow> bool \<Rightarrow> Message list \<Rightarrow> (error + bool) \<times> call list" where
  "album_loop w caption is_first [] = (Inr is_first, [])"
| "album_loop w caption is_first (msg # msgs) =
     (case detect_media msg of
        None \<Rightarrow> album_loop w caption is_first msgs
      | Some (wa_type, mime, fname) \<Rightarrow>
          if mime \<notin> set WA_SUPPORTED_MIMES then album_loop w caption is_first msgs
          else
            (case download_media w msg of
               None \<Rightarrow>
                 (case album_loop w caption is_first msgs of
                    (outcome, later) \<Rightarrow> (outcome, DownloadMedia (msg_id msg) # later))
             | Some file_bytes \<Rightarrow>
                 (case sender_upload_media w file_bytes mime fname of
                    Inl e \<Rightarrow>
                      (Inl e, [DownloadMedia (msg_id msg), UploadMedia file_bytes mime fname])
                  | Inr media_id \<Rightarrow>
                      (let cap = (if is_first then Some caption else None);
                           calls = [DownloadMedia (msg_id msg), UploadMedia file_bytes mime fname,
                                    SendMedia wa_type media_id cap]
                       in case sender_send_media w wa_type media_id cap of
                            Inl e \<Rightarrow> (Inl e, calls)
                          | Inr u \<Rightarrow>
                              (case album_loop w caption False msgs of
                                 (outcome, later) \<Rightarrow> (outcome, calls @ later))))))"

text \<open>\<open>next((m.text for m in messages if m.text), None)\<close>\<close>

fun first_text :: "Message list \<Rightarrow> pystr option" where
  "first_text [] = None"
| "first_text (m # ms) = (case truthy (msg_text m) of None \<Rightarrow> first_text ms | Some t \<Rightarrow> Some t)"

record PendingAlbum =
  channel_name :: pystr
  messages :: "Message list"
  timer :: "nat option"

text \<open>\<open>_flush_album\<close> from the point where the album has been taken out of the pending map.\<close>

definition process_album :: "world \<Rightarrow> PendingAlbum \<Rightarrow> (error + unit) \<times> call list" where
  "process_album w album =
     (let channel = channel_name album;
          album_text = first_text (messages album)
      in case messages album of
           [] \<Rightarrow> (Inl IndexError, [])
         | first_msg # others \<Rightarrow>
             (let source_link = build_source_link (chat_username w first_msg) (msg_id first_msg);
                  timestamp = msg_date first_msg;
                  chat_call = [GetChat (msg_id first_msg)]
              in case filter_block w channel album_text source_link of
                   (Some outcome, calls) \<Rightarrow> (outcome, chat_call @ calls)
                 | (None, calls) \<Rightarrow>
                     (let caption = format_caption (local_time w) channel timestamp album_text
                                      source_link
                      in case album_loop w caption True (messages album) of
                           (Inl e, sent) \<Rightarrow> (Inl e, chat_call @ calls @ sent)
                         | (Inr is_first, sent) \<Rightarrow>
                             (case (is_first, album_text) of
                                (True, Some t) \<Rightarrow>
                                  (let text = format_text (local_time w) channel timestamp t
                                                source_link
                                   in (sender_send_text w text,
                                       chat_call @ calls @ sent @ [SendText text]))
                              | _ \<Rightarrow> (Inr (), chat_call @ calls @ sent)))))"

subsection \<open>The pending albums and their timers\<close>

text \<open>
  \<open>_pending_albums\<close> is a dictionary; it is kept as the list of its items in insertion
  order, which is the order \<open>flush_pending\<close> iterates in.  The timers the event loop holds
  for the router (\<open>call_later\<close>) are the pairs of a handle and the group it will flush;
  \<open>cancel\<close> removes the pair.
\<close>

record router =
  pending_albums :: "(int \<times> PendingAlbum) list"
  timers :: "(nat \<times> int) list"
  next_timer :: nat


text \<open>
  The functions of the router return the new state, the outcome and the effects in the
  order in which they happen: the removal of an album from the pending map (the \<open>pop\<close> of
  \<open>_flush_album\<close>) and the calls on the collaborators.
\<close>

datatype effect = Removed int | Called call


definition flush_album :: "world \<Rightarrow> router \<Rightarrow> int \<Rightarrow> router \<times> (error + unit) \<times> effect list" where
  "flush_album w r gid =
     (case map_of (pending_albums r) gid of
        None \<Rightarrow> (r, Inr (), [])
      | Some album \<Rightarrow>
          (let r1 = r\<lparr>pending_albums := AList.delete gid (pending_albums r)\<rparr>
           in case process_album w album of
                (outcome, calls) \<Rightarrow> (r1, outcome, Removed gid # map Called calls)))"









subsection \<open>Observations on the attribute loop\<close>

text \<open>The file name an attribute assigns in the loop of \<open>_detect_media\<close>, if it assigns one.\<close>

fun forced_name :: "attribute \<Rightarrow> pystr option" where
  "forced_name (DocumentAttributeFilename file_name) = Some file_name"
| "forced_name (DocumentAttributeVideo round_message) =
     (if round_message then Some (str ''video_note.mp4'') else None)"
| "forced_name (DocumentAttributeAudio voice) = (if voice then Some (str ''voice.ogg'') else None)"
| "forced_name DocumentAttributeSticker = Some (str ''sticker.webp'')"
| "forced_name DocumentAttributeAnimated = None"
| "forced_name DocumentAttributeOther = None"

text \<open>Two sticker documents: the declared file name before, and after, the sticker attribute.\<close>

definition sticker_named_first :: Message where
  "sticker_named_first =
     \<lparr>msg_id = 1, msg_text = None, msg_date = 0, grouped_id = None, photo = False,
      document = Some \<lparr>mime_type = Some (str ''image/webp''),
        attributes = [DocumentAttributeFilename (str ''cat.webp''), DocumentAttributeSticker]\<rparr>\<rparr>"

definition sticker_named_last :: Message where
  "sticker_named_last =
     \<lparr>msg_id = 1, msg_text = None, msg_date = 0, grouped_id = None, photo = False,
      document = Some \<lparr>mime_type = Some (str ''image/webp''),
        attributes = [DocumentAttributeSticker, DocumentAttributeFilename (str ''cat.webp'')]\<rparr>\<rparr>"

subsection \<open>Observations on a run of the router\<close>

text \<open>
  The text of a skip notice, written out; whether the filter block skips a text, and the
  calls it makes when it does not; whether a message yields media that is supported and
  downloads; the download a message causes in an album; the upload and send of a
  delivered message; and the calls that go to the sink.
\<close>

definition notice_text :: "pystr \<Rightarrow> pystr \<Rightarrow> pystr \<Rightarrow> pystr option \<Rightarrow> pystr" where
  "notice_text channel rule why link =
     str ''[Skipped from '' @ channel @ str ''] ('' @ rule @ str '') '' @ why @
     (case link of None \<Rightarrow> [] | Some l \<Rightarrow> NL # l)"

definition skipped :: "world \<Rightarrow> pystr option \<Rightarrow> bool" where
  "skipped w text =
     (case (truthy text, content_filter w) of
        (Some t, Some evaluate_text) \<Rightarrow> action (evaluate_text t) = SKIP
      | _ \<Rightarrow> False)"

definition filter_calls :: "world \<Rightarrow> pystr option \<Rightarrow> call list" where
  "filter_calls w text =
     (case (truthy text, content_filter w) of
        (Some t, Some evaluate_text) \<Rightarrow> [Evaluate t]
      | _ \<Rightarrow> [])"

definition deliverable :: "world \<Rightarrow> Message \<Rightarrow> bool" where
  "deliverable w m =
     (case detect_media m of
        None \<Rightarrow> False
      | Some (wa_type, mime, fname) \<Rightarrow>
          mime \<in> set WA_SUPPORTED_MIMES \<and> download_media w m \<noteq> None)"

definition fetch_calls :: "Message \<Rightarrow> call list" where
  "fetch_calls m =
     (case detect_media m of
        None \<Rightarrow> []
      | Some (wa_type, mime, fname) \<Rightarrow>
          if mime \<in> set WA_SUPPORTED_MIMES then [DownloadMedia (msg_id m)] else [])"

definition media_pair :: "world \<Rightarrow> pystr option \<Rightarrow> Message \<Rightarrow> call list" where
  "media_pair w cap m =
     (case detect_media m of
        None \<Rightarrow> []
      | Some (wa_type, mime, fname) \<Rightarrow>
          (case download_media w m of
             None \<Rightarrow> []
           | Some file_bytes \<Rightarrow>
               (case sender_upload_media w file_bytes mime fname of
                  Inl e \<Rightarrow> []
                | Inr media_id \<Rightarrow>
                    [UploadMedia file_bytes mime fname, SendMedia wa_type media_id cap])))"

fun is_media_call :: "call \<Rightarrow> bool" where
  "is_media_call (UploadMedia file_bytes mime fname) = True"
| "is_media_call (SendMedia wa_type media_id cap) = True"
| "is_media_call c = False"

subsection \<open>A world for the examples\<close>

text \<open>
  The chat is public with user name \<open>chan\<close>; the filter skips the text \<open>buy now\<close> and
  forwards every other text; the media of message 3 does not download; the sender accepts
  every call.  \<open>photo_msg i t\<close> is a photo message with id \<open>i\<close> and text \<open>t\<close>.
\<close>

definition wit_filter :: "pystr \<Rightarrow> FilterResult" where
  "wit_filter t =
     (if t = str ''buy now'' then FilterResult SKIP (str ''promotion'') (str ''ads'')
      else FilterResult FORWARD (str ''Passed all filters'') (str ''all''))"

definition wit_world :: world where
  "wit_world =
     \<lparr>chat_username = (\<lambda>m. Some (str ''chan'')),
      download_media = (\<lambda>m. if msg_id m = 3 then None else Some [nat (msg_id m)]),
      content_filter = Some wit_filter,
      sender_send_text = (\<lambda>t. Inr ()),
      sender_upload_media = (\<lambda>b mime f. Inr (str ''media-1'')),
      sender_send_media = (\<lambda>t i c. Inr ()),
      local_time = (\<lambda>ts. str ''2026-02-13 14:30'')\<rparr>"

definition photo_msg :: "int \<Rightarrow> pystr option \<Rightarrow> Message" where
  "photo_msg i t =
     \<lparr>msg_id = i, msg_text = t, msg_date = 0, grouped_id = None, photo = True, document = None\<rparr>"

subsection \<open>Three album messages\<close>

text \<open>\<open>album_msg i g t\<close> is a photo message with id \<open>i\<close> and text \<open>t\<close> in the group
  \<open>g\<close>; \<open>two_albums\<close> is a router after two messages of group 7 and, between them, one of
  group 9.\<close>

definition album_msg :: "int \<Rightarrow> int \<Rightarrow> pystr option \<Rightarrow> Message" where
  "album_msg i g t = (photo_msg i t)\<lparr>grouped_id := Some g\<rparr>"





subsection \<open>Observations on the pending albums\<close>




fun is_download :: "call \<Rightarrow> bool" where
  "is_download (DownloadMedia i) = True"
| "is_download c = False"



definition upload_raises :: world where
  "upload_raises = wit_world\<lparr>sender_upload_media := (\<lambda>b mime f. Inl HTTPStatusError)\<rparr>"

definition two_photos :: PendingAlbum where
  "two_photos =
     \<lparr>channel_name = str ''Ch'', messages = [photo_msg 1 None, photo_msg 2 None], timer = None\<rparr>"

section \<open>Properties\<close>

subsection \<open>The text splitter\<close>

lemma last_index_bounds: "- 1 \<le> last_index c xs \<and> last_index c xs < int (length xs)"
  by (induction xs) (auto simp: Let_def)

lemma rfind_less:
  assumes "0 < e"
  shows "rfind tx c e < e"
proof -
  have "last_index c (slice_to tx e) < int (length (slice_to tx e))"
    using last_index_bounds [of c "slice_to tx e"] by simp
  also have "\<dots> \<le> e"
    using assms by (simp add: slice_to_def py_index_def)
  finally show ?thesis by (simp add: rfind_def)
qed

lemma cut_point_range:
  assumes "0 < L"
  shows "0 < cut_point tx L \<and> cut_point tx L \<le> L"
  using assms rfind_less [OF assms, of "tx" NL] rfind_less [OF assms, of "tx" SP]
  by (auto simp: cut_point_def Let_def)

lemma split_loop_step:
  assumes "tx \<noteq> []" "\<not> int (length tx) \<le> L"
  shows "split_loop tx L chunks =
         split_loop (lstrip_chars [NL, SP] (slice_from tx (cut_point tx L))) L
           (chunks @ [slice_to tx (cut_point tx L)])"
  using assms by (subst split_loop.simps) (simp add: cut_point_def Let_def)

lemma split_loop_spec:
  assumes "0 < L"
  shows "\<exists>cs ws. split_loop tx L chunks = Some (chunks @ cs) \<and>
           (\<forall>c\<in>set cs. int (length c) \<le> L) \<and> length ws = length cs \<and>
           (\<forall>w\<in>set ws. set w \<subseteq> {NL, SP}) \<and> concat (map2 (@) cs ws) = tx"
proof (induction "length tx" arbitrary: tx chunks rule: less_induct)
  case less
  show ?case
  proof (cases "tx = []")
    case True
    have "split_loop tx L chunks = Some (chunks @ [])"
      using True by (subst split_loop.simps) simp
    then show ?thesis using True
      by (intro exI [of _ "[]"]) simp
  next
    case False
    show ?thesis
    proof (cases "int (length tx) \<le> L")
      case True
      have "split_loop tx L chunks = Some (chunks @ [tx])"
        using True False by (subst split_loop.simps) simp
      then show ?thesis using True
        by (intro exI [of _ "[tx]"] exI [of _ "[[]]"]) simp
    next
      case long: False
      define k where "k = nat (cut_point tx L)"
      have cp: "0 < cut_point tx L" "cut_point tx L \<le> L"
        using cut_point_range [OF assms] by auto
      have k: "0 < k" "int k \<le> L" "k < length tx"
        using cp long by (auto simp: k_def)
      have st: "slice_to tx (cut_point tx L) = take k tx"
        using cp k by (simp add: slice_to_def py_index_def k_def)
      have sf: "slice_from tx (cut_point tx L) = drop k tx"
        using cp k by (simp add: slice_from_def py_index_def k_def)
      define w where "w = takeWhile (\<lambda>c. c \<in> set [NL, SP]) (drop k tx)"
      define rest where "rest = lstrip_chars [NL, SP] (drop k tx)"
      have wrest: "w @ rest = drop k tx"
        by (simp add: w_def rest_def lstrip_chars_def)
      have wset: "set w \<subseteq> {NL, SP}"
        using set_takeWhileD [of _ "\<lambda>c. c \<in> set [NL, SP]" "drop k tx"]
        by (auto simp: w_def)
      have "length rest \<le> length (drop k tx)"
        unfolding rest_def lstrip_chars_def by (rule length_dropWhile_le)
      then have shorter: "length rest < length tx"
        using k by simp
      obtain cs ws where ih:
        "split_loop rest L (chunks @ [take k tx]) = Some ((chunks @ [take k tx]) @ cs)"
        "\<forall>c\<in>set cs. int (length c) \<le> L" "length ws = length cs"
        "\<forall>w\<in>set ws. set w \<subseteq> {NL, SP}" "concat (map2 (@) cs ws) = rest"
        using less [OF shorter, of "chunks @ [take k tx]"] by blast
      have r1: "split_loop tx L chunks = Some (chunks @ (take k tx # cs))"
        using split_loop_step [OF False long, of chunks] ih(1) by (simp add: st sf rest_def)
      have r2: "\<forall>c\<in>set (take k tx # cs). int (length c) \<le> L"
        using ih(2) k by simp
      have r3: "length (w # ws) = length (take k tx # cs)"
        using ih(3) by simp
      have r4: "\<forall>v\<in>set (w # ws). set v \<subseteq> {NL, SP}"
        using ih(4) wset by simp
      have r5: "concat (map2 (@) (take k tx # cs) (w # ws)) = tx"
      proof -
        have "concat (map2 (@) (take k tx # cs) (w # ws)) = take k tx @ (w @ rest)"
          using ih(5) by simp
        then show ?thesis by (simp add: wrest)
      qed
      show ?thesis
        by (intro exI [of _ "take k tx # cs"] exI [of _ "w # ws"] conjI) (rule r1 r2 r3 r4 r5)+
    qed
  qed
qed

text \<open>
  C3.  For every text \<open>T\<close> and every limit \<open>L > 0\<close> the splitter returns; every chunk it
  returns has length at most \<open>L\<close>; and \<open>T\<close> is the concatenation of the chunks, in order,
  with a run of newline and space characters (the characters the splitter strips) after
  each chunk.
\<close>

theorem split_text_chunks:
  assumes "0 < L"
  shows "\<exists>chunks. split_text T L = Some chunks \<and>
           (\<forall>c\<in>set chunks. int (length c) \<le> L) \<and>
           (\<exists>ws. length ws = length chunks \<and> (\<forall>w\<in>set ws. set w \<subseteq> {NL, SP}) \<and>
                 concat (map2 (@) chunks ws) = T)"
proof (cases "int (length T) \<le> L")
  case True
  then have "split_text T L = Some [T]" by (simp add: split_text_def)
  then show ?thesis using True
    by (intro exI [of _ "[T]"] conjI exI [of _ "[[]]"]) simp_all
next
  case False
  obtain cs ws where "split_loop T L [] = Some ([] @ cs)"
    "\<forall>c\<in>set cs. int (length c) \<le> L" "length ws = length cs"
    "\<forall>w\<in>set ws. set w \<subseteq> {NL, SP}" "concat (map2 (@) cs ws) = T"
    using split_loop_spec [OF assms, of T "[]"] by blast
  then show ?thesis using False
    by (intro exI [of _ cs] conjI exI [of _ ws]) (simp_all add: split_text_def)
qed

theorem split_text_chunks_witness:
  "(0::int) < 3 \<and>
   (\<exists>chunks. split_text (str ''ab cd  efgh'') 3 = Some chunks \<and>
      (\<forall>c\<in>set chunks. int (length c) \<le> 3) \<and>
      (\<exists>ws. length ws = length chunks \<and> (\<forall>w\<in>set ws. set w \<subseteq> {NL, SP}) \<and>
            concat (map2 (@) chunks ws) = str ''ab cd  efgh''))"
  using split_text_chunks [of 3 "str ''ab cd  efgh''"] by simp

lemma split_text_example:
  "split_text (str ''ab cd  efgh'') 3 = Some [str ''ab'', str ''cd'', str ''efg'', str ''h'']"
  by code_simp

subsection \<open>The filter pipeline\<close>

lemma strip_empty_iff: "strip tx = [] \<longleftrightarrow> (\<forall>c\<in>set tx. is_space c)"
proof -
  have "(\<forall>c\<in>set (dropWhile is_space tx). is_space c) \<longleftrightarrow> dropWhile is_space tx = []"
  proof
    assume all: "\<forall>c\<in>set (dropWhile is_space tx). is_space c"
    show "dropWhile is_space tx = []"
    proof (rule ccontr)
      assume ne: "dropWhile is_space tx \<noteq> []"
      then have "\<not> is_space (hd (dropWhile is_space tx))" by (rule hd_dropWhile)
      moreover have "hd (dropWhile is_space tx) \<in> set (dropWhile is_space tx)"
        using ne by simp
      ultimately show False using all by blast
    qed
  next
    assume "dropWhile is_space tx = []"
    then show "\<forall>c\<in>set (dropWhile is_space tx). is_space c"
      by (simp del: dropWhile_eq_Nil_conv)
  qed
  moreover have "strip tx = [] \<longleftrightarrow> (\<forall>c\<in>set (dropWhile is_space tx). is_space c)"
    by (simp add: strip_def rstrip_def lstrip_def dropWhile_eq_Nil_conv del: set_rev)
       (simp only: set_rev)
  moreover have "dropWhile is_space tx = [] \<longleftrightarrow> (\<forall>c\<in>set tx. is_space c)"
    by (rule dropWhile_eq_Nil_conv)
  ultimately show ?thesis by blast
qed

lemma run_filter_cases:
  "run_filter config cl (name rule) (prompt rule) tx =
     (case verdict config cl rule tx of
        Inl e \<Rightarrow> (Inr (FilterResult FORWARD (str ''Filter error'') (name rule)),
                  [call_of config tx rule, LogException (name rule)])
      | Inr (FilterDecision a r) \<Rightarrow> (Inr (FilterResult a r (name rule)), [call_of config tx rule]))"
  by (simp add: run_filter_def run_filter_try_def verdict_def call_of_def Let_def
      split: sum.splits FilterDecision.splits)

lemma run_filter_Inr: "\<exists>result. fst (run_filter config cl n p tx) = Inr result"
  by (simp add: run_filter_def run_filter_try_def Let_def split: sum.splits FilterDecision.splits)

lemma evaluate_rules_Inr: "\<exists>result. fst (evaluate_rules config cl tx rules) = Inr result"
proof (induction rules)
  case Nil
  show ?case by simp
next
  case (Cons rule rules)
  obtain result events where rf: "run_filter config cl (name rule) (prompt rule) tx = (Inr result, events)"
    using run_filter_Inr [of config cl "name rule" "prompt rule" tx]
    by (cases "run_filter config cl (name rule) (prompt rule) tx") auto
  show ?case using Cons.IH rf
    by (cases "evaluate_rules config cl tx rules") (auto simp: Let_def)
qed

lemma evaluate_rules_not_skip:
  assumes "\<not> skips config cl rule tx"
  shows "fst (evaluate_rules config cl tx (rule # rules)) = fst (evaluate_rules config cl tx rules) \<and>
         filter is_call (snd (evaluate_rules config cl tx (rule # rules))) =
           call_of config tx rule # filter is_call (snd (evaluate_rules config cl tx rules))"
proof (cases "verdict config cl rule tx")
  case (Inl e)
  then show ?thesis
    by (cases "evaluate_rules config cl tx rules") (simp add: run_filter_cases Let_def call_of_def)
next
  case (Inr d)
  obtain a r where d: "d = FilterDecision a r" by (cases d)
  have "a = FORWARD" using assms Inr d by (cases a) (simp_all add: skips_def)
  then show ?thesis using Inr d
    by (cases "evaluate_rules config cl tx rules") (simp add: run_filter_cases Let_def call_of_def)
qed

lemma evaluate_rules_skip:
  assumes "verdict config cl rule tx = Inr (FilterDecision SKIP r)"
  shows "fst (evaluate_rules config cl tx (rule # rules)) = Inr (FilterResult SKIP r (name rule)) \<and>
         filter is_call (snd (evaluate_rules config cl tx (rule # rules))) = [call_of config tx rule]"
  using assms by (simp add: run_filter_cases Let_def call_of_def)

lemma evaluate_rules_first_skip:
  assumes "\<forall>q\<in>set pre. \<not> skips config cl q tx"
    and "verdict config cl rule tx = Inr (FilterDecision SKIP r)"
  shows "fst (evaluate_rules config cl tx (pre @ rule # post)) = Inr (FilterResult SKIP r (name rule)) \<and>
         filter is_call (snd (evaluate_rules config cl tx (pre @ rule # post))) =
           map (call_of config tx) (pre @ [rule])"
  using assms(1)
proof (induction pre)
  case Nil
  show ?case using evaluate_rules_skip [OF assms(2), of post] by simp
next
  case (Cons q pre)
  then have "\<not> skips config cl q tx" and "\<forall>q\<in>set pre. \<not> skips config cl q tx" by simp_all
  then show ?case
    using evaluate_rules_not_skip [of config cl q tx "pre @ rule # post"] Cons.IH by simp
qed

lemma evaluate_rules_no_skip:
  assumes "\<forall>q\<in>set rules. \<not> skips config cl q tx"
  shows "fst (evaluate_rules config cl tx rules) =
           Inr (FilterResult FORWARD (str ''Passed all filters'') (str ''all'')) \<and>
         filter is_call (snd (evaluate_rules config cl tx rules)) = map (call_of config tx) rules"
  using assms
proof (induction rules)
  case Nil
  show ?case by simp
next
  case (Cons q rules)
  then have "\<not> skips config cl q tx" and "\<forall>q\<in>set rules. \<not> skips config cl q tx" by simp_all
  then show ?case
    using evaluate_rules_not_skip [of config cl q tx rules] Cons.IH by simp
qed

text \<open>
  C5.  Evaluation returns a default forward verdict, without any call of the client, when the
  text is empty or consists of whitespace only, and when the rule list is empty.  Otherwise
  the verdict is that of the first rule whose answer is a skip, and the client is called for
  that rule and the rules before it and for no later rule.  When no rule skips, the verdict
  is the default forward verdict named \<open>all\<close> and the client was called once per rule.
\<close>

theorem evaluate_first_skip_wins:
  "((\<forall>c\<in>set tx. is_space c) \<longrightarrow>
      evaluate config cl tx =
        (Inr (FilterResult FORWARD (str ''No text to analyze'') (str ''none'')), [])) \<and>
   (filters config = [] \<longrightarrow>
      (\<exists>why. evaluate config cl tx = (Inr (FilterResult FORWARD why (str ''none'')), []))) \<and>
   (\<not> (\<forall>c\<in>set tx. is_space c) \<and> filters config = pre @ rule # post \<and>
    (\<forall>q\<in>set pre. \<not> skips config cl q tx) \<and>
    verdict config cl rule tx = Inr (FilterDecision SKIP r) \<longrightarrow>
      fst (evaluate config cl tx) = Inr (FilterResult SKIP r (name rule)) \<and>
      filter is_call (snd (evaluate config cl tx)) = map (call_of config tx) (pre @ [rule])) \<and>
   (\<not> (\<forall>c\<in>set tx. is_space c) \<and> filters config \<noteq> [] \<and>
    (\<forall>q\<in>set (filters config). \<not> skips config cl q tx) \<longrightarrow>
      fst (evaluate config cl tx) =
        Inr (FilterResult FORWARD (str ''Passed all filters'') (str ''all'')) \<and>
      filter is_call (snd (evaluate config cl tx)) = map (call_of config tx) (filters config))"
proof (intro conjI impI)
  assume "\<forall>c\<in>set tx. is_space c"
  then have "strip tx = []" by (simp add: strip_empty_iff)
  then show "evaluate config cl tx =
        (Inr (FilterResult FORWARD (str ''No text to analyze'') (str ''none'')), [])"
    by (simp add: evaluate_def)
next
  assume "filters config = []"
  then show "\<exists>why. evaluate config cl tx = (Inr (FilterResult FORWARD why (str ''none'')), [])"
    by (simp add: evaluate_def)
next
  assume a: "\<not> (\<forall>c\<in>set tx. is_space c) \<and> filters config = pre @ rule # post \<and>
    (\<forall>q\<in>set pre. \<not> skips config cl q tx) \<and>
    verdict config cl rule tx = Inr (FilterDecision SKIP r)"
  then have ne: "tx \<noteq> []" "strip tx \<noteq> []" by (auto simp: strip_empty_iff)
  have ev: "evaluate config cl tx = evaluate_rules config cl tx (pre @ rule # post)"
    using a ne by (simp add: evaluate_def)
  show "fst (evaluate config cl tx) = Inr (FilterResult SKIP r (name rule))"
    using a evaluate_rules_first_skip [of pre config cl tx rule r post] by (simp add: ev)
  show "filter is_call (snd (evaluate config cl tx)) = map (call_of config tx) (pre @ [rule])"
    using a evaluate_rules_first_skip [of pre config cl tx rule r post] by (simp add: ev)
next
  assume a: "\<not> (\<forall>c\<in>set tx. is_space c) \<and> filters config \<noteq> [] \<and>
    (\<forall>q\<in>set (filters config). \<not> skips config cl q tx)"
  then have ne: "tx \<noteq> []" "strip tx \<noteq> []" by (auto simp: strip_empty_iff)
  have ev: "evaluate config cl tx = evaluate_rules config cl tx (filters config)"
    using a ne by (simp add: evaluate_def)
  show "fst (evaluate config cl tx) =
        Inr (FilterResult FORWARD (str ''Passed all filters'') (str ''all''))"
    using a evaluate_rules_no_skip [of "filters config" config cl tx] by (simp add: ev)
  show "filter is_call (snd (evaluate config cl tx)) = map (call_of config tx) (filters config)"
    using a evaluate_rules_no_skip [of "filters config" config cl tx] by (simp add: ev)
qed

lemma evaluate_rules_passes:
  assumes "\<not> skips config cl q tx"
  shows "evaluate_rules config cl tx (q # rules) =
           (fst (evaluate_rules config cl tx rules),
            rule_events config cl tx q @ snd (evaluate_rules config cl tx rules))"
proof (cases "verdict config cl q tx")
  case (Inl e)
  then show ?thesis
    by (cases "evaluate_rules config cl tx rules")
       (simp add: run_filter_cases rule_events_def Let_def)
next
  case (Inr d)
  obtain a why where d: "d = FilterDecision a why" by (cases d)
  have "a = FORWARD" using assms Inr d by (cases a) (simp_all add: skips_def)
  then show ?thesis using Inr d
    by (cases "evaluate_rules config cl tx rules")
       (simp add: run_filter_cases rule_events_def Let_def)
qed

lemma evaluate_rules_prefix:
  assumes "\<forall>q\<in>set pre. \<not> skips config cl q tx"
  shows "evaluate_rules config cl tx (pre @ rest) =
           (fst (evaluate_rules config cl tx rest),
            concat (map (rule_events config cl tx) pre) @ snd (evaluate_rules config cl tx rest))"
  using assms
proof (induction pre)
  case Nil
  show ?case by simp
next
  case (Cons q pre)
  then have q: "\<not> skips config cl q tx" and rest: "\<forall>q\<in>set pre. \<not> skips config cl q tx"
    by simp_all
  show ?case
    using evaluate_rules_passes [OF q, of "pre @ rest"] Cons.IH [OF rest] by simp
qed

lemma evaluate_rules_stops:
  assumes "verdict config cl s tx = Inr (FilterDecision SKIP why)"
  shows "evaluate_rules config cl tx (s # post) =
           (Inr (FilterResult SKIP why (name s)),
            [call_of config tx s, LogInfo (name s) SKIP why])"
  using assms by (simp add: run_filter_cases Let_def)

lemma raising_not_skips:
  assumes "verdict config cl rule tx = Inl e"
  shows "\<not> skips config cl rule tx"
    and "rule_events config cl tx rule =
           [call_of config tx rule, LogException (name rule),
            LogInfo (name rule) FORWARD (str ''Filter error'')]"
  using assms by (simp_all add: skips_def rule_events_def)

lemma evaluate_nonblank:
  assumes "\<not> (\<forall>c\<in>set tx. is_space c)" and "filters config \<noteq> []"
  shows "evaluate config cl tx = evaluate_rules config cl tx (filters config)"
proof -
  have "tx \<noteq> []" "strip tx \<noteq> []" using assms(1) by (auto simp: strip_empty_iff)
  then show ?thesis using assms(2) by (simp add: evaluate_def)
qed

text \<open>
  C6.  Evaluation never returns an error.  A rule on which the client raises gets the
  forward verdict \<open>Filter error\<close>, the failure is logged, and the pipeline goes on with
  the remaining rules: when the configured rules before the raising rule do not skip,
  \<open>evaluate\<close> calls the client for the raising rule, logs the exception and the forward
  verdict, and then evaluates the rules after it; its result is the default forward verdict
  when none of them skips, and the verdict of the first of them that skips otherwise.
\<close>

theorem evaluate_fail_open:
  "(\<exists>result. fst (evaluate config cl tx) = Inr result) \<and>
   (verdict config cl rule tx = Inl e \<longrightarrow>
      run_filter config cl (name rule) (prompt rule) tx =
        (Inr (FilterResult FORWARD (str ''Filter error'') (name rule)),
         [call_of config tx rule, LogException (name rule)]) \<and>
      evaluate_rules config cl tx (rule # rules) =
        (fst (evaluate_rules config cl tx rules),
         [call_of config tx rule, LogException (name rule),
          LogInfo (name rule) FORWARD (str ''Filter error'')] @
         snd (evaluate_rules config cl tx rules))) \<and>
   (\<not> (\<forall>c\<in>set tx. is_space c) \<and> filters config = pre @ rule # post \<and>
    (\<forall>q\<in>set pre. \<not> skips config cl q tx) \<and> verdict config cl rule tx = Inl e \<and>
    (\<forall>q\<in>set post. \<not> skips config cl q tx) \<longrightarrow>
      evaluate config cl tx =
        (Inr (FilterResult FORWARD (str ''Passed all filters'') (str ''all'')),
         concat (map (rule_events config cl tx) pre) @
         [call_of config tx rule, LogException (name rule),
          LogInfo (name rule) FORWARD (str ''Filter error'')] @
         concat (map (rule_events config cl tx) post))) \<and>
   (\<not> (\<forall>c\<in>set tx. is_space c) \<and> filters config = pre @ rule # mid @ s # post \<and>
    (\<forall>q\<in>set pre. \<not> skips config cl q tx) \<and> verdict config cl rule tx = Inl e \<and>
    (\<forall>q\<in>set mid. \<not> skips config cl q tx) \<and>
    verdict config cl s tx = Inr (FilterDecision SKIP why) \<longrightarrow>
      evaluate config cl tx =
        (Inr (FilterResult SKIP why (name s)),
         concat (map (rule_events config cl tx) pre) @
         [call_of config tx rule, LogException (name rule),
          LogInfo (name rule) FORWARD (str ''Filter error'')] @
         concat (map (rule_events config cl tx) mid) @
         [call_of config tx s, LogInfo (name s) SKIP why]))"
proof (intro conjI impI)
  show "\<exists>result. fst (evaluate config cl tx) = Inr result"
    using evaluate_rules_Inr [of config cl tx "filters config"] by (simp add: evaluate_def)
next
  assume "verdict config cl rule tx = Inl e"
  then show "run_filter config cl (name rule) (prompt rule) tx =
        (Inr (FilterResult FORWARD (str ''Filter error'') (name rule)),
         [call_of config tx rule, LogException (name rule)])"
    by (simp add: run_filter_cases)
next
  assume "verdict config cl rule tx = Inl e"
  then show "evaluate_rules config cl tx (rule # rules) =
        (fst (evaluate_rules config cl tx rules),
         [call_of config tx rule, LogException (name rule),
          LogInfo (name rule) FORWARD (str ''Filter error'')] @
         snd (evaluate_rules config cl tx rules))"
    by (cases "evaluate_rules config cl tx rules") (simp add: run_filter_cases Let_def)
next
  assume a: "\<not> (\<forall>c\<in>set tx. is_space c) \<and> filters config = pre @ rule # post \<and>
    (\<forall>q\<in>set pre. \<not> skips config cl q tx) \<and> verdict config cl rule tx = Inl e \<and>
    (\<forall>q\<in>set post. \<not> skips config cl q tx)"
  then have nb: "\<not> (\<forall>c\<in>set tx. is_space c)" and fs: "filters config = pre @ rule # post"
    and pre: "\<forall>q\<in>set pre. \<not> skips config cl q tx" and raises: "verdict config cl rule tx = Inl e"
    and post: "\<forall>q\<in>set post. \<not> skips config cl q tx" by blast+
  have ev: "evaluate config cl tx = evaluate_rules config cl tx (pre @ rule # post)"
    using evaluate_nonblank [OF nb, of config cl] fs by simp
  have tail: "evaluate_rules config cl tx (post @ []) =
      (Inr (FilterResult FORWARD (str ''Passed all filters'') (str ''all'')),
       concat (map (rule_events config cl tx) post) @ [])"
    using evaluate_rules_prefix [OF post, of "[]"] by simp
  have one: "evaluate_rules config cl tx (rule # post) =
      (Inr (FilterResult FORWARD (str ''Passed all filters'') (str ''all'')),
       [call_of config tx rule, LogException (name rule),
        LogInfo (name rule) FORWARD (str ''Filter error'')] @
       concat (map (rule_events config cl tx) post))"
    using evaluate_rules_passes [OF raising_not_skips(1) [OF raises], of post] tail
    by (simp add: raising_not_skips(2) [OF raises])
  show "evaluate config cl tx =
        (Inr (FilterResult FORWARD (str ''Passed all filters'') (str ''all'')),
         concat (map (rule_events config cl tx) pre) @
         [call_of config tx rule, LogException (name rule),
          LogInfo (name rule) FORWARD (str ''Filter error'')] @
         concat (map (rule_events config cl tx) post))"
    unfolding ev evaluate_rules_prefix [OF pre, of "rule # post"] one by simp
next
  assume a: "\<not> (\<forall>c\<in>set tx. is_space c) \<and> filters config = pre @ rule # mid @ s # post \<and>
    (\<forall>q\<in>set pre. \<not> skips config cl q tx) \<and> verdict config cl rule tx = Inl e \<and>
    (\<forall>q\<in>set mid. \<not> skips config cl q tx) \<and>
    verdict config cl s tx = Inr (FilterDecision SKIP why)"
  then have nb: "\<not> (\<forall>c\<in>set tx. is_space c)"
    and fs: "filters config = pre @ rule # mid @ s # post"
    and pre: "\<forall>q\<in>set pre. \<not> skips config cl q tx" and raises: "verdict config cl rule tx = Inl e"
    and mid: "\<forall>q\<in>set mid. \<not> skips config cl q tx"
    and stops: "verdict config cl s tx = Inr (FilterDecision SKIP why)" by blast+
  have ev: "evaluate config cl tx = evaluate_rules config cl tx (pre @ rule # mid @ s # post)"
    using evaluate_nonblank [OF nb, of config cl] fs by simp
  have tail: "evaluate_rules config cl tx (mid @ s # post) =
      (Inr (FilterResult SKIP why (name s)),
       concat (map (rule_events config cl tx) mid) @ [call_of config tx s, LogInfo (name s) SKIP why])"
    unfolding evaluate_rules_prefix [OF mid, of "s # post"] evaluate_rules_stops [OF stops] by simp
  have one: "evaluate_rules config cl tx (rule # mid @ s # post) =
      (Inr (FilterResult SKIP why (name s)),
       [call_of config tx rule, LogException (name rule),
        LogInfo (name rule) FORWARD (str ''Filter error'')] @
       concat (map (rule_events config cl tx) mid) @ [call_of config tx s, LogInfo (name s) SKIP why])"
    using evaluate_rules_passes [OF raising_not_skips(1) [OF raises], of "mid @ s # post"] tail
    by (simp add: raising_not_skips(2) [OF raises])
  show "evaluate config cl tx =
        (Inr (FilterResult SKIP why (name s)),
         concat (map (rule_events config cl tx) pre) @
         [call_of config tx rule, LogException (name rule),
          LogInfo (name rule) FORWARD (str ''Filter error'')] @
         concat (map (rule_events config cl tx) mid) @
         [call_of config tx s, LogInfo (name s) SKIP why])"
    unfolding ev evaluate_rules_prefix [OF pre, of "rule # mid @ s # post"] one by simp
qed

subsection \<open>String literals\<close>

lemma str_eq_iff [simp]: "str a = str b \<longleftrightarrow> a = b"
proof -
  have "inj (of_char :: char \<Rightarrow> nat)" by (rule injI) simp
  then show ?thesis by (auto simp: str_def dest: inj_mapD [THEN injD, rotated])
qed

lemma str_Nil [simp]: "str [] = []"
  by (simp add: str_def)

lemma str_eq_Nil [simp]: "str a = [] \<longleftrightarrow> a = []"
  by (simp add: str_def)

lemma BASE_SYSTEM_PROMPT_eq [simp]: "BASE_SYSTEM_PROMPT a = BASE_SYSTEM_PROMPT b \<longleftrightarrow> a = b"
  by (simp add: BASE_SYSTEM_PROMPT_def)

lemma wit_verdicts:
  "verdict wit_config wit_client (FilterRule (str ''a'') (str ''pa'')) t = Inl ClientException"
  "verdict wit_config wit_client (FilterRule (str ''b'') (str ''pb'')) t = Inr (FilterDecision SKIP (str ''ads''))"
  "verdict wit_config wit_client (FilterRule (str ''c'') (str ''pc'')) t = Inr (FilterDecision FORWARD (str ''ok''))"
  by (simp_all add: verdict_def wit_client_def)

lemma not_blank_hi: "\<not> (\<forall>c\<in>set (str ''hi''). is_space c)"
  by (simp add: str_def is_space_def)

theorem evaluate_first_skip_wins_witness:
  "evaluate wit_config wit_client (str '' '') =
     (Inr (FilterResult FORWARD (str ''No text to analyze'') (str ''none'')), []) \<and>
   (\<exists>why. evaluate (wit_config\<lparr>filters := []\<rparr>) wit_client (str ''hi'') =
      (Inr (FilterResult FORWARD why (str ''none'')), [])) \<and>
   (fst (evaluate wit_config wit_client (str ''hi'')) = Inr (FilterResult SKIP (str ''ads'') (str ''b'')) \<and>
    filter is_call (snd (evaluate wit_config wit_client (str ''hi''))) =
      [call_of wit_config (str ''hi'') (FilterRule (str ''a'') (str ''pa'')),
       call_of wit_config (str ''hi'') (FilterRule (str ''b'') (str ''pb''))]) \<and>
   (fst (evaluate (wit_config\<lparr>filters := [FilterRule (str ''c'') (str ''pc'')]\<rparr>) wit_client (str ''hi'')) =
      Inr (FilterResult FORWARD (str ''Passed all filters'') (str ''all'')))"
proof (intro conjI)
  show "evaluate wit_config wit_client (str '' '') =
     (Inr (FilterResult FORWARD (str ''No text to analyze'') (str ''none'')), [])"
    using evaluate_first_skip_wins [of "str '' ''" wit_config wit_client]
    by (simp add: str_def is_space_def)
  show "\<exists>why. evaluate (wit_config\<lparr>filters := []\<rparr>) wit_client (str ''hi'') =
      (Inr (FilterResult FORWARD why (str ''none'')), [])"
    using evaluate_first_skip_wins [of "str ''hi''" "wit_config\<lparr>filters := []\<rparr>" wit_client]
    by simp
  have third: "fst (evaluate wit_config wit_client (str ''hi'')) = Inr (FilterResult SKIP (str ''ads'') (str ''b'')) \<and>
    filter is_call (snd (evaluate wit_config wit_client (str ''hi''))) =
      [call_of wit_config (str ''hi'') (FilterRule (str ''a'') (str ''pa'')),
       call_of wit_config (str ''hi'') (FilterRule (str ''b'') (str ''pb''))]"
    using evaluate_first_skip_wins [of "str ''hi''" wit_config wit_client
        "[FilterRule (str ''a'') (str ''pa'')]" "FilterRule (str ''b'') (str ''pb'')"
        "[FilterRule (str ''c'') (str ''pc'')]" "str ''ads''"]
      not_blank_hi wit_verdicts
    by (simp add: skips_def) (simp add: wit_config_def)
  show "fst (evaluate wit_config wit_client (str ''hi'')) = Inr (FilterResult SKIP (str ''ads'') (str ''b''))"
    using third by simp
  show "filter is_call (snd (evaluate wit_config wit_client (str ''hi''))) =
      [call_of wit_config (str ''hi'') (FilterRule (str ''a'') (str ''pa'')),
       call_of wit_config (str ''hi'') (FilterRule (str ''b'') (str ''pb''))]"
    using third by simp
  show "fst (evaluate (wit_config\<lparr>filters := [FilterRule (str ''c'') (str ''pc'')]\<rparr>) wit_client (str ''hi'')) =
      Inr (FilterResult FORWARD (str ''Passed all filters'') (str ''all''))"
    using evaluate_first_skip_wins [of "str ''hi''"
        "wit_config\<lparr>filters := [FilterRule (str ''c'') (str ''pc'')]\<rparr>" wit_client]
      not_blank_hi wit_verdicts(3)
    by (simp add: skips_def verdict_def wit_config_def)
qed

theorem evaluate_fail_open_witness:
  "(\<exists>result. fst (evaluate wit_config wit_client (str ''hi'')) = Inr result) \<and>
   run_filter wit_config wit_client (str ''a'') (str ''pa'') (str ''hi'') =
     (Inr (FilterResult FORWARD (str ''Filter error'') (str ''a'')),
      [ParseCall (str ''m'') (BASE_SYSTEM_PROMPT (str ''pa'')) (str ''hi''), LogException (str ''a'')]) \<and>
   evaluate wit_config_fail_first wit_client (str ''hi'') =
     (Inr (FilterResult FORWARD (str ''Passed all filters'') (str ''all'')),
      [ParseCall (str ''m'') (BASE_SYSTEM_PROMPT (str ''pc'')) (str ''hi''),
       LogInfo (str ''c'') FORWARD (str ''ok''),
       ParseCall (str ''m'') (BASE_SYSTEM_PROMPT (str ''pa'')) (str ''hi''),
       LogException (str ''a''),
       LogInfo (str ''a'') FORWARD (str ''Filter error''),
       ParseCall (str ''m'') (BASE_SYSTEM_PROMPT (str ''pc'')) (str ''hi''),
       LogInfo (str ''c2'') FORWARD (str ''ok'')]) \<and>
   evaluate wit_config wit_client (str ''hi'') =
     (Inr (FilterResult SKIP (str ''ads'') (str ''b'')),
      [ParseCall (str ''m'') (BASE_SYSTEM_PROMPT (str ''pa'')) (str ''hi''),
       LogException (str ''a''),
       LogInfo (str ''a'') FORWARD (str ''Filter error''),
       ParseCall (str ''m'') (BASE_SYSTEM_PROMPT (str ''pb'')) (str ''hi''),
       LogInfo (str ''b'') SKIP (str ''ads'')])"
proof -
  have v: "verdict wit_config_fail_first wit_client (FilterRule (str ''a'') (str ''pa'')) (str ''hi'') =
        Inl ClientException"
      "verdict wit_config_fail_first wit_client (FilterRule (str ''c'') (str ''pc'')) (str ''hi'') =
        Inr (FilterDecision FORWARD (str ''ok''))"
      "verdict wit_config_fail_first wit_client (FilterRule (str ''c2'') (str ''pc'')) (str ''hi'') =
        Inr (FilterDecision FORWARD (str ''ok''))"
    by (simp_all add: verdict_def wit_client_def)
  have m: "model wit_config = str ''m''" "model wit_config_fail_first = str ''m''"
    by (simp_all add: wit_config_def wit_config_fail_first_def)
  have c1: "(\<exists>result. fst (evaluate wit_config wit_client (str ''hi'')) = Inr result) \<and>
     run_filter wit_config wit_client (str ''a'') (str ''pa'') (str ''hi'') =
       (Inr (FilterResult FORWARD (str ''Filter error'') (str ''a'')),
        [ParseCall (str ''m'') (BASE_SYSTEM_PROMPT (str ''pa'')) (str ''hi''), LogException (str ''a'')])"
    using evaluate_fail_open [where config = wit_config and cl = wit_client and tx = "str ''hi''"
        and rule = "FilterRule (str ''a'') (str ''pa'')" and e = ClientException]
      wit_verdicts(1)
    by (simp add: call_of_def m)
  have c2: "evaluate wit_config_fail_first wit_client (str ''hi'') =
     (Inr (FilterResult FORWARD (str ''Passed all filters'') (str ''all'')),
      [ParseCall (str ''m'') (BASE_SYSTEM_PROMPT (str ''pc'')) (str ''hi''),
       LogInfo (str ''c'') FORWARD (str ''ok''),
       ParseCall (str ''m'') (BASE_SYSTEM_PROMPT (str ''pa'')) (str ''hi''),
       LogException (str ''a''),
       LogInfo (str ''a'') FORWARD (str ''Filter error''),
       ParseCall (str ''m'') (BASE_SYSTEM_PROMPT (str ''pc'')) (str ''hi''),
       LogInfo (str ''c2'') FORWARD (str ''ok'')])"
    using evaluate_fail_open [where config = wit_config_fail_first and cl = wit_client
        and tx = "str ''hi''" and pre = "[FilterRule (str ''c'') (str ''pc'')]"
        and rule = "FilterRule (str ''a'') (str ''pa'')" and e = ClientException
        and post = "[FilterRule (str ''c2'') (str ''pc'')]",
        THEN conjunct2, THEN conjunct2, THEN conjunct1]
      not_blank_hi v
    by (simp add: skips_def rule_events_def call_of_def m)
       (simp add: wit_config_fail_first_def wit_config_def)
  have c3: "evaluate wit_config wit_client (str ''hi'') =
     (Inr (FilterResult SKIP (str ''ads'') (str ''b'')),
      [ParseCall (str ''m'') (BASE_SYSTEM_PROMPT (str ''pa'')) (str ''hi''),
       LogException (str ''a''),
       LogInfo (str ''a'') FORWARD (str ''Filter error''),
       ParseCall (str ''m'') (BASE_SYSTEM_PROMPT (str ''pb'')) (str ''hi''),
       LogInfo (str ''b'') SKIP (str ''ads'')])"
    using evaluate_fail_open [where config = wit_config and cl = wit_client
        and tx = "str ''hi''" and pre = "[]"
        and rule = "FilterRule (str ''a'') (str ''pa'')" and e = ClientException
        and mid = "[]" and s = "FilterRule (str ''b'') (str ''pb'')" and why = "str ''ads''"
        and post = "[FilterRule (str ''c'') (str ''pc'')]",
        THEN conjunct2, THEN conjunct2, THEN conjunct2]
      not_blank_hi wit_verdicts
    by (simp add: call_of_def m) (simp add: wit_config_def)
  show ?thesis using c1 c2 c3 by blast
qed

subsection \<open>The sender\<close>

lemma post_chunks_within:
  assumes "\<forall>c\<in>set chunks. int (length c) \<le> MAX_TEXT"
  shows "\<forall>q\<in>set (snd (post_chunks server recipient sent chunks)). within_limits q"
  using assms
proof (induction chunks arbitrary: sent)
  case Nil
  show ?case by simp
next
  case (Cons c chunks)
  then have ih: "\<forall>q\<in>set (snd (post_chunks server recipient (sent @ [TextMessage recipient c]) chunks)).
      within_limits q" by simp
  show ?case using Cons.prems ih
    by (cases "post_chunks server recipient (sent @ [TextMessage recipient c]) chunks")
       (auto simp: Let_def split: sum.splits)
qed

lemma post_chunks_accepted:
  assumes "\<forall>l. \<not> is_error (server l)"
  shows "\<exists>results. post_chunks server recipient sent chunks =
           (Inr results, map (TextMessage recipient) chunks)"
proof (induction chunks arbitrary: sent)
  case Nil
  show ?case by simp
next
  case (Cons c chunks)
  obtain results where
    "post_chunks server recipient (sent @ [TextMessage recipient c]) chunks =
       (Inr results, map (TextMessage recipient) chunks)"
    using Cons.IH by blast
  then show ?case using assms by (simp add: Let_def)
qed

lemma split_text_MAX_TEXT:
  "\<exists>chunks. split_text tx MAX_TEXT = Some chunks \<and> (\<forall>c\<in>set chunks. int (length c) \<le> MAX_TEXT)"
proof -
  have "(0::int) < MAX_TEXT" by (simp add: MAX_TEXT_def)
  then obtain chunks where "split_text tx MAX_TEXT = Some chunks"
    "\<forall>c\<in>set chunks. int (length c) \<le> MAX_TEXT"
    using split_loop_spec [of MAX_TEXT tx "[]"]
    by (cases "int (length tx) \<le> MAX_TEXT") (auto simp: split_text_def)
  then show ?thesis by blast
qed

lemma send_text_within:
  "\<exists>r posted. send_text server recipient sent tx = Some (r, posted) \<and>
     (\<forall>q\<in>set posted. within_limits q)"
proof -
  obtain chunks where c: "split_text tx MAX_TEXT = Some chunks"
    "\<forall>c\<in>set chunks. int (length c) \<le> MAX_TEXT"
    using split_text_MAX_TEXT by blast
  obtain r posted where p: "post_chunks server recipient sent chunks = (r, posted)"
    by (cases "post_chunks server recipient sent chunks")
  have "\<forall>q\<in>set posted. within_limits q"
    using post_chunks_within [OF c(2), of server recipient sent] p by simp
  then show ?thesis using c(1) p by (simp add: send_text_def)
qed

lemma caption_cut_range: "0 < caption_cut c \<and> int (caption_cut c) \<le> MAX_CAPTION"
proof -
  have "(0::int) < MAX_CAPTION" by (simp add: MAX_CAPTION_def)
  then show ?thesis
    using rfind_less [of MAX_CAPTION c SP] by (auto simp: caption_cut_def Let_def)
qed

lemma split_caption_long:
  assumes "media_type \<in> {str ''image'', str ''video'', str ''document''}"
    and "int (length c) > MAX_CAPTION"
  shows "split_caption media_type (Some c) =
           (Some (take (caption_cut c) c), Some (lstrip (drop (caption_cut c) c)))"
proof -
  have ne: "c \<noteq> []" using assms(2) by (auto simp: MAX_CAPTION_def)
  define cut where "cut = (let k = rfind c SP MAX_CAPTION in if k \<le> 0 then MAX_CAPTION else k)"
  have k: "caption_cut c = nat cut" by (simp add: caption_cut_def cut_def)
  have pos: "0 < cut" "cut \<le> MAX_CAPTION"
    using caption_cut_range [of c] by (auto simp: k split: if_splits)
  have st: "slice_to c cut = take (nat cut) c"
    using pos assms(2) by (simp add: slice_to_def py_index_def)
  have sf: "slice_from c cut = drop (nat cut) c"
    using pos assms(2) by (simp add: slice_from_def py_index_def)
  have "split_caption media_type (Some c) = (Some (slice_to c cut), Some (lstrip (slice_from c cut)))"
    using assms ne unfolding split_caption_def cut_def by (simp add: truthy_def Let_def)
  then show ?thesis by (simp add: st sf k)
qed

lemma split_caption_within:
  "case fst (split_caption media_type caption) of None \<Rightarrow> True
   | Some c \<Rightarrow> int (length c) \<le> MAX_CAPTION"
proof (cases "truthy caption")
  case None
  then show ?thesis by (simp add: split_caption_def)
next
  case (Some c)
  show ?thesis
  proof (cases "media_type \<in> {str ''image'', str ''video'', str ''document''}")
    case False
    then show ?thesis using Some by (simp add: split_caption_def)
  next
    case True
    have cap: "truthy caption = truthy (Some c)"
      using Some by (auto simp: truthy_def split: option.splits if_splits)
    have sc: "split_caption media_type caption = split_caption media_type (Some c)"
      by (simp add: split_caption_def cap)
    show ?thesis
    proof (cases "int (length c) > MAX_CAPTION")
      case long: True
      show ?thesis
        using split_caption_long [OF True long] caption_cut_range [of c]
        by (simp add: sc min_def)
    next
      case False
      then show ?thesis using True Some by (simp add: split_caption_def)
    qed
  qed
qed

lemma split_caption_other:
  assumes "media_type \<notin> {str ''image'', str ''video'', str ''document''}"
  shows "split_caption media_type caption = (None, None)"
  using assms by (simp add: split_caption_def split: option.splits)

lemma send_media_within:
  "\<exists>r posted. send_media server recipient sent media_type media_id caption = Some (r, posted) \<and>
     (\<forall>q\<in>set posted. within_limits q)"
proof -
  obtain mc ov where sc: "split_caption media_type caption = (mc, ov)"
    by (cases "split_caption media_type caption")
  define payload where "payload = MediaMessage recipient media_type media_id mc"
  have wl: "within_limits payload"
    using split_caption_within [of media_type caption] sc
    by (cases mc) (simp_all add: payload_def)
  show ?thesis
  proof (cases "is_error (server (sent @ [payload]))")
    case True
    then show ?thesis using sc wl by (simp add: send_media_def payload_def Let_def)
  next
    case ok: False
    show ?thesis
    proof (cases "truthy ov")
      case None
      then show ?thesis using sc wl ok by (simp add: send_media_def payload_def Let_def)
    next
      case (Some rest)
      obtain r posted where st: "send_text server recipient (sent @ [payload]) rest = Some (r, posted)"
        "\<forall>q\<in>set posted. within_limits q"
        using send_text_within by blast
      show ?thesis using sc wl ok Some st
        by (cases r) (simp_all add: send_media_def payload_def Let_def)
    qed
  qed
qed

lemma post_chunks_texts:
  "\<forall>q\<in>set (snd (post_chunks server recipient sent chunks)). \<exists>body. q = TextMessage recipient body"
proof (induction chunks arbitrary: sent)
  case Nil
  show ?case by simp
next
  case (Cons c chunks)
  show ?case using Cons.IH [of "sent @ [TextMessage recipient c]"]
    by (cases "post_chunks server recipient (sent @ [TextMessage recipient c]) chunks")
       (auto simp: Let_def split: sum.splits)
qed

lemma send_media_posted:
  "\<exists>r rest. send_media server recipient sent media_type media_id caption =
      Some (r, MediaMessage recipient media_type media_id (fst (split_caption media_type caption)) # rest) \<and>
      (\<forall>q\<in>set rest. \<exists>body. q = TextMessage recipient body)"
proof -
  obtain mc ov where sc: "split_caption media_type caption = (mc, ov)"
    by (cases "split_caption media_type caption")
  define payload where "payload = MediaMessage recipient media_type media_id mc"
  show ?thesis
  proof (cases "is_error (server (sent @ [payload]))")
    case True
    then show ?thesis using sc by (simp add: send_media_def payload_def Let_def)
  next
    case ok: False
    show ?thesis
    proof (cases "truthy ov")
      case None
      then show ?thesis using sc ok by (simp add: send_media_def payload_def Let_def)
    next
      case (Some rest)
      obtain chunks where c: "split_text rest MAX_TEXT = Some chunks"
        using split_text_MAX_TEXT by blast
      obtain r posted where p: "post_chunks server recipient (sent @ [payload]) chunks = (r, posted)"
        by (cases "post_chunks server recipient (sent @ [payload]) chunks")
      have "\<forall>q\<in>set posted. \<exists>body. q = TextMessage recipient body"
        using post_chunks_texts [of server recipient "sent @ [payload]" chunks] p by simp
      then show ?thesis using sc ok Some c p
        by (cases r) (simp_all add: send_media_def send_text_def payload_def Let_def)
    qed
  qed
qed

lemma split_caption_Some:
  assumes "fst (split_caption media_type caption) = Some c"
  shows "media_type \<in> {str ''image'', str ''video'', str ''document''}"
proof (rule ccontr)
  assume "media_type \<notin> {str ''image'', str ''video'', str ''document''}"
  then have "split_caption media_type caption = (None, None)" by (rule split_caption_other)
  then show False using assms by simp
qed

lemma send_media_overflow:
  assumes "media_type \<in> {str ''image'', str ''video'', str ''document''}"
    and "int (length c) > MAX_CAPTION"
    and "\<forall>l. \<not> is_error (server l)"
  shows "\<exists>results chunks.
           split_text (lstrip (drop (caption_cut c) c)) MAX_TEXT = Some chunks \<and>
           send_media server recipient sent media_type media_id (Some c) =
             Some (Inr results,
                   MediaMessage recipient media_type media_id (Some (take (caption_cut c) c)) #
                   (if lstrip (drop (caption_cut c) c) = [] then []
                    else map (TextMessage recipient) chunks))"
proof -
  define rest where "rest = lstrip (drop (caption_cut c) c)"
  define payload where
    "payload = MediaMessage recipient media_type media_id (Some (take (caption_cut c) c))"
  have sc: "split_caption media_type (Some c) = (Some (take (caption_cut c) c), Some rest)"
    using split_caption_long [OF assms(1,2)] by (simp add: rest_def)
  obtain chunks where c: "split_text rest MAX_TEXT = Some chunks"
    using split_text_MAX_TEXT by blast
  obtain results where p:
    "post_chunks server recipient (sent @ [payload]) chunks = (Inr results, map (TextMessage recipient) chunks)"
    using post_chunks_accepted [OF assms(3)] by blast
  have ok: "\<not> is_error (server (sent @ [payload]))" using assms(3) by simp
  show ?thesis
  proof (cases "rest = []")
    case True
    then have "send_media server recipient sent media_type media_id (Some c) =
        Some (Inr [server (sent @ [payload])], [payload])"
      using sc ok by (simp add: send_media_def payload_def Let_def truthy_def)
    then show ?thesis using True c unfolding rest_def payload_def by simp
  next
    case False
    then have "send_media server recipient sent media_type media_id (Some c) =
        Some (Inr (server (sent @ [payload]) # results), payload # map (TextMessage recipient) chunks)"
      using sc ok c p by (simp add: send_media_def send_text_def payload_def Let_def truthy_def)
    then show ?thesis using False c unfolding rest_def payload_def by simp
  qed
qed

lemma send_media_other:
  assumes "media_type \<notin> {str ''image'', str ''video'', str ''document''}"
  shows "\<exists>r. send_media server recipient sent media_type media_id caption =
           Some (r, [MediaMessage recipient media_type media_id None])"
proof -
  have "split_caption media_type caption = (None, None)"
    using assms by (rule split_caption_other)
  then show ?thesis by (simp add: send_media_def Let_def truthy_def)
qed

text \<open>
  C4, as amended.  Every text body the sender posts has at most 4096 characters and every
  caption it posts at most 1024.  When the media type is image, video or document, the
  caption is longer than 1024 characters and the server accepts every request, the media
  message carries the caption up to the cut position, and the rest of the caption, with its
  leading whitespace stripped, follows as text messages of at most 4096 characters each
  (none when the rest is whitespace only).  For every other media type the sender posts the
  media message without caption and nothing else, whatever the caption is.
\<close>

theorem sender_payload_limits:
  "(\<exists>r posted. send_text server recipient sent tx = Some (r, posted) \<and>
      (\<forall>q\<in>set posted. within_limits q)) \<and>
   (\<exists>r posted. send_media server recipient sent media_type media_id caption = Some (r, posted) \<and>
      (\<forall>q\<in>set posted. within_limits q)) \<and>
   (media_type \<in> {str ''image'', str ''video'', str ''document''} \<and>
    int (length c) > MAX_CAPTION \<and> (\<forall>l. \<not> is_error (server l)) \<longrightarrow>
      (\<exists>results chunks.
         split_text (lstrip (drop (caption_cut c) c)) MAX_TEXT = Some chunks \<and>
         send_media server recipient sent media_type media_id (Some c) =
           Some (Inr results,
                 MediaMessage recipient media_type media_id (Some (take (caption_cut c) c)) #
                 (if lstrip (drop (caption_cut c) c) = [] then []
                  else map (TextMessage recipient) chunks)))) \<and>
   (media_type \<notin> {str ''image'', str ''video'', str ''document''} \<longrightarrow>
      (\<exists>r. send_media server recipient sent media_type media_id caption =
         Some (r, [MediaMessage recipient media_type media_id None])))"
proof (intro conjI impI)
  show "\<exists>r posted. send_text server recipient sent tx = Some (r, posted) \<and>
      (\<forall>q\<in>set posted. within_limits q)"
    by (rule send_text_within)
  show "\<exists>r posted. send_media server recipient sent media_type media_id caption = Some (r, posted) \<and>
      (\<forall>q\<in>set posted. within_limits q)"
    by (rule send_media_within)
next
  assume a: "media_type \<in> {str ''image'', str ''video'', str ''document''} \<and>
    int (length c) > MAX_CAPTION \<and> (\<forall>l. \<not> is_error (server l))"
  show "\<exists>results chunks.
         split_text (lstrip (drop (caption_cut c) c)) MAX_TEXT = Some chunks \<and>
         send_media server recipient sent media_type media_id (Some c) =
           Some (Inr results,
                 MediaMessage recipient media_type media_id (Some (take (caption_cut c) c)) #
                 (if lstrip (drop (caption_cut c) c) = [] then []
                  else map (TextMessage recipient) chunks))"
    using a by (intro send_media_overflow) simp_all
next
  assume "media_type \<notin> {str ''image'', str ''video'', str ''document''}"
  then show "\<exists>r. send_media server recipient sent media_type media_id caption =
         Some (r, [MediaMessage recipient media_type media_id None])"
    by (rule send_media_other)
qed

theorem sender_payload_limits_witness:
  "(\<exists>r posted. send_text accepting (str ''15550001'') [] (str ''hello'') = Some (r, posted) \<and>
      (\<forall>q\<in>set posted. within_limits q)) \<and>
   (\<exists>r posted. send_media accepting (str ''15550001'') [] (str ''image'') (str ''media-1'')
        (Some (replicate 1020 97 @ SP # replicate 10 98)) = Some (r, posted) \<and>
      (\<forall>q\<in>set posted. within_limits q)) \<and>
   (\<exists>results chunks.
      split_text (lstrip (drop (caption_cut (replicate 1020 97 @ SP # replicate 10 98))
          (replicate 1020 97 @ SP # replicate 10 98))) MAX_TEXT = Some chunks \<and>
      send_media accepting (str ''15550001'') [] (str ''image'') (str ''media-1'')
          (Some (replicate 1020 97 @ SP # replicate 10 98)) =
        Some (Inr results,
              MediaMessage (str ''15550001'') (str ''image'') (str ''media-1'')
                (Some (take (caption_cut (replicate 1020 97 @ SP # replicate 10 98))
                   (replicate 1020 97 @ SP # replicate 10 98))) #
              (if lstrip (drop (caption_cut (replicate 1020 97 @ SP # replicate 10 98))
                   (replicate 1020 97 @ SP # replicate 10 98)) = [] then []
               else map (TextMessage (str ''15550001'')) chunks))) \<and>
   (\<exists>r. send_media accepting (str ''15550001'') [] (str ''audio'') (str ''media-1'')
        (Some (str ''a short caption'')) =
      Some (r, [MediaMessage (str ''15550001'') (str ''audio'') (str ''media-1'') None]))"
  using sender_payload_limits [where server = accepting and recipient = "str ''15550001''"
      and sent = "[]" and tx = "str ''hello''" and media_type = "str ''image''"
      and media_id = "str ''media-1''"
      and caption = "Some (replicate 1020 97 @ SP # replicate 10 98)"
      and c = "replicate 1020 97 @ SP # replicate 10 98"]
    sender_payload_limits [where server = accepting and recipient = "str ''15550001''"
      and sent = "[]" and tx = "str ''hello''" and media_type = "str ''audio''"
      and media_id = "str ''media-1''" and caption = "Some (str ''a short caption'')"
      and c = "replicate 1020 97 @ SP # replicate 10 98"]
  by (simp add: accepting_def MAX_CAPTION_def)

lemma send_media_rejected:
  "send_media rejecting recipient sent media_type media_id caption =
     Some (Inl HTTPStatusError,
           [MediaMessage recipient media_type media_id (fst (split_caption media_type caption))])"
  by (simp add: send_media_def rejecting_def Let_def split: prod.splits)

theorem caption_lost_for_audio:
  "int (length (replicate 1025 (97::nat))) > MAX_CAPTION \<and>
   send_media accepting (str ''15550001'') [] (str ''audio'') (str ''media-1'')
       (Some (replicate 1025 97)) =
     Some (Inr [Response False (Some (str ''media-1''))],
           [MediaMessage (str ''15550001'') (str ''audio'') (str ''media-1'') None])"
  by (simp add: send_media_def split_caption_def truthy_def accepting_def MAX_CAPTION_def Let_def)

text \<open>
  C10.  For a media type other than image, video and document (so for every sticker and
  audio send) the sender posts exactly one request, the media message without a caption,
  whatever caption was supplied; and whenever a posted media message carries a caption, the
  media type is image, video or document.
\<close>

theorem send_media_caption_types:
  "(media_type \<notin> {str ''image'', str ''video'', str ''document''} \<longrightarrow>
      (\<exists>r. send_media server recipient sent media_type media_id caption =
         Some (r, [MediaMessage recipient media_type media_id None]))) \<and>
   (send_media server recipient sent media_type media_id caption = Some (r', posted) \<and>
    MediaMessage recipient' t i (Some c) \<in> set posted \<longrightarrow>
      media_type \<in> {str ''image'', str ''video'', str ''document''})"
proof (intro conjI impI)
  assume "media_type \<notin> {str ''image'', str ''video'', str ''document''}"
  then have "split_caption media_type caption = (None, None)" by (rule split_caption_other)
  then show "\<exists>r. send_media server recipient sent media_type media_id caption =
         Some (r, [MediaMessage recipient media_type media_id None])"
    by (simp add: send_media_def Let_def truthy_def)
next
  assume a: "send_media server recipient sent media_type media_id caption = Some (r', posted) \<and>
    MediaMessage recipient' t i (Some c) \<in> set posted"
  obtain r rest where p: "send_media server recipient sent media_type media_id caption =
      Some (r, MediaMessage recipient media_type media_id (fst (split_caption media_type caption)) # rest)"
    "\<forall>q\<in>set rest. \<exists>body. q = TextMessage recipient body"
    using send_media_posted by blast
  have "MediaMessage recipient' t i (Some c) \<notin> set rest" using p(2) by auto
  then have "fst (split_caption media_type caption) = Some c" using a p(1) by auto
  then show "media_type \<in> {str ''image'', str ''video'', str ''document''}"
    by (rule split_caption_Some)
qed

theorem send_media_caption_types_witness:
  "(\<exists>r. send_media accepting (str ''15550001'') [] (str ''sticker'') (str ''media-1'')
        (Some (str ''hello'')) =
      Some (r, [MediaMessage (str ''15550001'') (str ''sticker'') (str ''media-1'') None])) \<and>
   (\<exists>r. send_media accepting (str ''15550001'') [] (str ''audio'') (str ''media-1'')
        (Some (str ''hello'')) =
      Some (r, [MediaMessage (str ''15550001'') (str ''audio'') (str ''media-1'') None])) \<and>
   str ''image'' \<in> {str ''image'', str ''video'', str ''document''}"
  using send_media_caption_types [of "str ''sticker''" accepting "str ''15550001''" "[]"
      "str ''media-1''" "Some (str ''hello'')"]
    send_media_caption_types [of "str ''audio''" accepting "str ''15550001''" "[]"
      "str ''media-1''" "Some (str ''hello'')"]
    send_media_caption_types [of "str ''image''" accepting "str ''15550001''" "[]"
      "str ''media-1''" "Some (str ''hello'')"
      "Inr [Response False (Some (str ''media-1''))]"
      "[MediaMessage (str ''15550001'') (str ''image'') (str ''media-1'') (Some (str ''hello''))]"
      "str ''15550001''" "str ''image''" "str ''media-1''" "str ''hello''"]
  by simp

subsection \<open>Media classification\<close>

lemma scan_attribute_keeps:
  assumes "forced_name b = None"
  shows "filename (scan_attribute s b) = filename s"
  using assms by (cases b) (simp_all split: if_splits)

lemma scan_attribute_sets:
  assumes "forced_name a = Some f"
  shows "filename (scan_attribute s a) = f"
  using assms by (cases a) (simp_all split: if_splits)

lemma scan_keeps:
  assumes "\<forall>b\<in>set bs. forced_name b = None"
  shows "filename (foldl scan_attribute s bs) = filename s"
  using assms by (induction bs arbitrary: s) (simp_all add: scan_attribute_keeps)

lemma scan_last_wins:
  assumes "forced_name a = Some f" and "\<forall>b\<in>set after. forced_name b = None"
  shows "filename (foldl scan_attribute s (before @ a # after)) = f"
  using assms by (simp add: scan_keeps scan_attribute_sets)

lemma detect_media_filename:
  assumes "\<not> photo m" and "document m = Some doc"
  shows "\<exists>wa_type mime. detect_media m =
           Some (wa_type, mime,
                 filename (foldl scan_attribute
                   \<lparr>filename = str ''file'', is_voice = False, is_video = False,
                    is_audio = False, is_sticker = False, is_gif = False\<rparr> (attributes doc)))"
  using assms by (simp add: detect_media_def Let_def)

text \<open>
  C2, as amended.  For a document (of a message without photo) the classification returns the
  file name assigned by the last attribute, in list order, that assigns one: a declared file
  name assigns itself, a sticker attribute \<open>sticker.webp\<close>, a round video attribute
  \<open>video_note.mp4\<close> and a voice audio attribute \<open>voice.ogg\<close>.  So the forced name of a
  sticker, video note or voice message is returned when no later attribute assigns a file
  name, and a declared file name after it replaces it.
\<close>

theorem detect_media_last_name_wins:
  "\<not> photo m \<and> document m = Some doc \<and> attributes doc = before @ a # after \<and>
   forced_name a = Some f \<and> (\<forall>b\<in>set after. forced_name b = None) \<longrightarrow>
     (\<exists>wa_type mime. detect_media m = Some (wa_type, mime, f))"
proof
  assume a: "\<not> photo m \<and> document m = Some doc \<and> attributes doc = before @ a # after \<and>
   forced_name a = Some f \<and> (\<forall>b\<in>set after. forced_name b = None)"
  then have "filename (foldl scan_attribute
                   \<lparr>filename = str ''file'', is_voice = False, is_video = False,
                    is_audio = False, is_sticker = False, is_gif = False\<rparr> (attributes doc)) = f"
    using scan_last_wins [of a f after _ before] by simp
  then show "\<exists>wa_type mime. detect_media m = Some (wa_type, mime, f)"
    using a detect_media_filename [of m doc] by simp
qed

theorem detect_media_last_name_wins_witness:
  "(\<exists>wa_type mime. detect_media sticker_named_first = Some (wa_type, mime, str ''sticker.webp'')) \<and>
   (\<exists>wa_type mime. detect_media sticker_named_last = Some (wa_type, mime, str ''cat.webp''))"
  using detect_media_last_name_wins [of sticker_named_first
      "\<lparr>mime_type = Some (str ''image/webp''),
        attributes = [DocumentAttributeFilename (str ''cat.webp''), DocumentAttributeSticker]\<rparr>"
      "[DocumentAttributeFilename (str ''cat.webp'')]" DocumentAttributeSticker "[]"
      "str ''sticker.webp''"]
    detect_media_last_name_wins [of sticker_named_last
      "\<lparr>mime_type = Some (str ''image/webp''),
        attributes = [DocumentAttributeSticker, DocumentAttributeFilename (str ''cat.webp'')]\<rparr>"
      "[DocumentAttributeSticker]" "DocumentAttributeFilename (str ''cat.webp'')" "[]"
      "str ''cat.webp''"]
  by (simp add: sticker_named_first_def sticker_named_last_def)

theorem sticker_name_overridden:
  "map_option attributes (document sticker_named_last) =
     Some [DocumentAttributeSticker, DocumentAttributeFilename (str ''cat.webp'')] \<and>
   detect_media sticker_named_last = Some (str ''sticker'', str ''image/webp'', str ''cat.webp'') \<and>
   str ''cat.webp'' \<noteq> str ''sticker.webp''"
  by (simp add: detect_media_def sticker_named_last_def truthy_def Let_def)

subsection \<open>The forwarding pipeline\<close>

lemma truthy_Some: "truthy x = Some t \<longleftrightarrow> x = Some t \<and> t \<noteq> []"
  by (auto simp: truthy_def split: option.splits)

lemma truthy_truthy [simp]: "truthy (truthy x) = truthy x"
  by (simp add: truthy_def split: option.splits)

lemma truthy_first_text [simp]: "truthy (first_text ms) = first_text ms"
proof (induction ms)
  case Nil
  show ?case by (simp add: truthy_def)
next
  case (Cons m ms)
  show ?case
  proof (cases "truthy (msg_text m)")
    case None
    then show ?thesis using Cons by simp
  next
    case (Some t)
    then have "t \<noteq> []" by (simp add: truthy_Some)
    then have "truthy (Some t) = Some t" by (simp add: truthy_def)
    then show ?thesis using Some by simp
  qed
qed

lemma truthy_build_source_link [simp]:
  "truthy (build_source_link u i) = build_source_link u i"
  by (simp add: build_source_link_def truthy_def str_def split: option.splits)

lemma filter_block_skipped:
  assumes "truthy text = Some t" and "content_filter w = Some ev" and "action (ev t) = SKIP"
  shows "filter_block w channel text (build_source_link u i) =
           (Some (sender_send_text w
              (notice_text channel (filter_name (ev t)) (reason (ev t)) (build_source_link u i))),
            [Evaluate t,
             SendText (notice_text channel (filter_name (ev t)) (reason (ev t))
               (build_source_link u i))])"
  using assms
  by (simp add: filter_block_def skip_notice_def notice_text_def Let_def split: option.splits)

lemma filter_block_passed:
  assumes "\<not> skipped w text"
  shows "filter_block w channel text link = (None, filter_calls w text)"
  using assms
  by (auto simp: filter_block_def skipped_def filter_calls_def Let_def split: option.splits)

text \<open>
  C7.  When the text of a single message, or the text of an album, gets a skip verdict from
  the configured filter, the only calls made are the chat lookup, the evaluation and one
  \<open>send_text\<close> of the skip notice: nothing is downloaded, uploaded or sent as media.  The
  notice names the channel, the rule and the reason, and ends with the link to the message
  when the chat has a user name.
\<close>

theorem skip_sends_only_notice:
  "(truthy (msg_text m) = Some t \<and> content_filter w = Some ev \<and> action (ev t) = SKIP \<longrightarrow>
      forward_single w channel m =
        (sender_send_text w
           (notice_text channel (filter_name (ev t)) (reason (ev t))
              (build_source_link (chat_username w m) (msg_id m))),
         [GetChat (msg_id m), Evaluate t,
          SendText (notice_text channel (filter_name (ev t)) (reason (ev t))
            (build_source_link (chat_username w m) (msg_id m)))])) \<and>
   (messages album = first # others \<and> first_text (messages album) = Some t \<and>
    content_filter w = Some ev \<and> action (ev t) = SKIP \<longrightarrow>
      process_album w album =
        (sender_send_text w
           (notice_text (channel_name album) (filter_name (ev t)) (reason (ev t))
              (build_source_link (chat_username w first) (msg_id first))),
         [GetChat (msg_id first), Evaluate t,
          SendText (notice_text (channel_name album) (filter_name (ev t)) (reason (ev t))
            (build_source_link (chat_username w first) (msg_id first)))])) \<and>
   (truthy u = Some uname \<longrightarrow>
      build_source_link u i = Some (str ''https://t.me/'' @ uname @ str ''/'' @ str_of_int i))"
proof (intro conjI impI)
  assume a: "truthy (msg_text m) = Some t \<and> content_filter w = Some ev \<and> action (ev t) = SKIP"
  show "forward_single w channel m =
        (sender_send_text w
           (notice_text channel (filter_name (ev t)) (reason (ev t))
              (build_source_link (chat_username w m) (msg_id m))),
         [GetChat (msg_id m), Evaluate t,
          SendText (notice_text channel (filter_name (ev t)) (reason (ev t))
            (build_source_link (chat_username w m) (msg_id m)))])"
    using a filter_block_skipped [of "msg_text m" t w ev channel "chat_username w m" "msg_id m"]
    by (simp add: forward_single_def Let_def)
next
  assume a: "messages album = first # others \<and> first_text (messages album) = Some t \<and>
    content_filter w = Some ev \<and> action (ev t) = SKIP"
  then have ft: "first_text (messages album) = Some t" by blast
  have "truthy (first_text (messages album)) = Some t"
    unfolding truthy_first_text by (rule ft)
  then show "process_album w album =
        (sender_send_text w
           (notice_text (channel_name album) (filter_name (ev t)) (reason (ev t))
              (build_source_link (chat_username w first) (msg_id first))),
         [GetChat (msg_id first), Evaluate t,
          SendText (notice_text (channel_name album) (filter_name (ev t)) (reason (ev t))
            (build_source_link (chat_username w first) (msg_id first)))])"
    using a filter_block_skipped [of "first_text (messages album)" t w ev "channel_name album"
        "chat_username w first" "msg_id first"]
    by (simp add: process_album_def Let_def)
next
  assume "truthy u = Some uname"
  then show "build_source_link u i = Some (str ''https://t.me/'' @ uname @ str ''/'' @ str_of_int i)"
    by (simp add: build_source_link_def)
qed

lemma album_loop_excluded:
  assumes "\<not> deliverable w m"
  shows "album_loop w cap is_first (m # ms) =
           (fst (album_loop w cap is_first ms), fetch_calls m @ snd (album_loop w cap is_first ms))"
  using assms
  by (cases "album_loop w cap is_first ms")
     (auto simp: deliverable_def fetch_calls_def split: option.splits)

lemma album_loop_delivered:
  assumes "deliverable w m"
    and "\<forall>b mime f. \<exists>i. sender_upload_media w b mime f = Inr i"
    and "\<forall>t i c. sender_send_media w t i c = Inr ()"
  shows "album_loop w cap is_first (m # ms) =
           (fst (album_loop w cap False ms),
            DownloadMedia (msg_id m) # media_pair w (if is_first then Some cap else None) m @
            snd (album_loop w cap False ms))"
proof -
  obtain t mime f where dm: "detect_media m = Some (t, mime, f)"
    using assms(1) by (auto simp: deliverable_def split: option.splits)
  have sup: "mime \<in> set WA_SUPPORTED_MIMES" using assms(1) dm by (simp add: deliverable_def)
  obtain b where dl: "download_media w m = Some b"
    using assms(1) dm by (auto simp: deliverable_def)
  obtain i where up: "sender_upload_media w b mime f = Inr i" using assms(2) by blast
  show ?thesis using dm sup dl up assms(3)
    by (cases "album_loop w cap False ms") (simp add: media_pair_def Let_def)
qed

lemma album_loop_all_excluded:
  assumes "\<forall>m\<in>set ms. \<not> deliverable w m"
  shows "album_loop w cap is_first ms = (Inr is_first, concat (map fetch_calls ms))"
  using assms
proof (induction ms)
  case Nil
  show ?case by simp
next
  case (Cons m ms)
  then show ?case using album_loop_excluded [of w m cap is_first ms] by simp
qed

lemma fetch_calls_no_media [simp]: "filter is_media_call (fetch_calls m) = []"
  by (simp add: fetch_calls_def split: option.splits)

lemma filter_calls_no_media [simp]: "filter is_media_call (filter_calls w tx) = []"
  by (simp add: filter_calls_def split: option.splits)

lemma media_pair_all_media [simp]: "filter is_media_call (media_pair w cap m) = media_pair w cap m"
  by (simp add: media_pair_def split: option.splits sum.splits)

lemma media_pair_length:
  assumes "deliverable w m" and "\<forall>b mime f. \<exists>i. sender_upload_media w b mime f = Inr i"
  shows "length (media_pair w cap m) = 2"
proof -
  obtain t mime f where dm: "detect_media m = Some (t, mime, f)"
    using assms(1) by (auto simp: deliverable_def split: option.splits)
  obtain b where dl: "download_media w m = Some b"
    using assms(1) dm by (auto simp: deliverable_def)
  obtain i where up: "sender_upload_media w b mime f = Inr i" using assms(2) by blast
  show ?thesis using dm dl up by (simp add: media_pair_def)
qed

lemma album_loop_later:
  assumes "\<forall>b mime f. \<exists>i. sender_upload_media w b mime f = Inr i"
    and "\<forall>t i c. sender_send_media w t i c = Inr ()"
  shows "fst (album_loop w cap False ms) = Inr False \<and>
         filter is_media_call (snd (album_loop w cap False ms)) =
           concat (map (media_pair w None) (filter (deliverable w) ms))"
proof (induction ms)
  case Nil
  show ?case by simp
next
  case (Cons m ms)
  show ?case
  proof (cases "deliverable w m")
    case True
    show ?thesis
      using Cons album_loop_delivered [OF True assms, of cap False ms] True by simp
  next
    case False
    show ?thesis
      using Cons album_loop_excluded [OF False, of cap False ms] False by simp
  qed
qed

lemma album_loop_first:
  assumes "\<forall>b mime f. \<exists>i. sender_upload_media w b mime f = Inr i"
    and "\<forall>t i c. sender_send_media w t i c = Inr ()"
  shows "fst (album_loop w cap True ms) = Inr (filter (deliverable w) ms = []) \<and>
         filter is_media_call (snd (album_loop w cap True ms)) =
           (case filter (deliverable w) ms of
              [] \<Rightarrow> []
            | g # gs \<Rightarrow> media_pair w (Some cap) g @ concat (map (media_pair w None) gs))"
proof (induction ms)
  case Nil
  show ?case by simp
next
  case (Cons m ms)
  show ?case
  proof (cases "deliverable w m")
    case True
    show ?thesis
      using album_loop_later [OF assms, of cap ms]
        album_loop_delivered [OF True assms, of cap True ms] True by simp
  next
    case False
    show ?thesis
      using Cons album_loop_excluded [OF False, of cap True ms] False by simp
  qed
qed

lemma first_text_found:
  assumes "\<forall>m\<in>set before. truthy (msg_text m) = None" and "truthy (msg_text m) = Some t"
  shows "first_text (before @ m # after) = Some t"
  using assms by (induction before) simp_all

lemma format_caption_parts:
  "format_caption fmt channel ts tx link =
     str ''['' @ channel @ str ''] '' @ fmt ts @
     (case truthy link of None \<Rightarrow> [] | Some l \<Rightarrow> NL # l) @
     (case truthy tx of None \<Rightarrow> [] | Some t \<Rightarrow> [NL, NL] @ t)"
  by (simp add: format_caption_def format_header_def Let_def split: option.splits)

lemma process_album_passed:
  assumes "messages album = first # others"
    and "\<not> skipped w (first_text (messages album))"
  shows "process_album w album =
     (case album_loop w
        (format_caption (local_time w) (channel_name album) (msg_date first)
           (first_text (messages album)) (build_source_link (chat_username w first) (msg_id first)))
        True (messages album) of
        (Inl e, sent) \<Rightarrow>
          (Inl e, GetChat (msg_id first) # filter_calls w (first_text (messages album)) @ sent)
      | (Inr is_first, sent) \<Rightarrow>
          (case (is_first, first_text (messages album)) of
             (True, Some t) \<Rightarrow>
               (sender_send_text w
                  (format_text (local_time w) (channel_name album) (msg_date first) t
                     (build_source_link (chat_username w first) (msg_id first))),
                GetChat (msg_id first) # filter_calls w (first_text (messages album)) @ sent @
                [SendText (format_text (local_time w) (channel_name album) (msg_date first) t
                   (build_source_link (chat_username w first) (msg_id first)))])
           | _ \<Rightarrow>
               (Inr (), GetChat (msg_id first) # filter_calls w (first_text (messages album)) @ sent)))"
proof -
  have fb: "filter_block w (channel_name album) (first_text (first # others))
      (build_source_link (chat_username w first) (msg_id first)) =
      (None, filter_calls w (first_text (first # others)))"
    using assms(2) [unfolded assms(1)] by (rule filter_block_passed)
  show ?thesis
    unfolding process_album_def Let_def assms(1) list.case fb prod.case option.case
    by (simp only: append_Cons append_Nil)
qed

text \<open>
  C9, as amended.  Take a completed album that the filter does not skip, and a sender whose
  upload and send of media return.  The uploads and media sends of the flush are then exactly one
  upload followed by one send for each member that is classified as supported and
  downloads, in the order of arrival; the first of these sends carries the caption and all
  later ones carry none.  The caption is the header (channel, local time, link if any)
  followed by the album text, which is the text of the first member with a non-empty text.
\<close>

theorem album_media_pairs:
  assumes "messages album = first # others"
    and "\<not> skipped w (first_text (messages album))"
    and "\<forall>b mime f. \<exists>i. sender_upload_media w b mime f = Inr i"
    and "\<forall>t i c. sender_send_media w t i c = Inr ()"
  shows "filter is_media_call (snd (process_album w album)) =
           (case filter (deliverable w) (messages album) of
              [] \<Rightarrow> []
            | g # gs \<Rightarrow>
                media_pair w
                  (Some (str ''['' @ channel_name album @ str ''] '' @ local_time w (msg_date first) @
                     (case build_source_link (chat_username w first) (msg_id first) of
                        None \<Rightarrow> [] | Some l \<Rightarrow> NL # l) @
                     (case first_text (messages album) of
                        None \<Rightarrow> [] | Some t \<Rightarrow> [NL, NL] @ t))) g @
                concat (map (media_pair w None) gs)) \<and>
         length (filter is_media_call (snd (process_album w album))) =
           2 * length (filter (deliverable w) (messages album)) \<and>
         ((\<forall>m\<in>set before. truthy (msg_text m) = None) \<and> truthy (msg_text x) = Some tx \<longrightarrow>
            first_text (before @ x # after) = Some tx)"
proof -
  define cap where "cap = format_caption (local_time w) (channel_name album) (msg_date first)
           (first_text (messages album)) (build_source_link (chat_username w first) (msg_id first))"
  have cap_eq: "cap = str ''['' @ channel_name album @ str ''] '' @ local_time w (msg_date first) @
                     (case build_source_link (chat_username w first) (msg_id first) of
                        None \<Rightarrow> [] | Some l \<Rightarrow> NL # l) @
                     (case first_text (messages album) of
                        None \<Rightarrow> [] | Some t \<Rightarrow> [NL, NL] @ t)"
    unfolding cap_def format_caption_parts by simp
  obtain sent where loop: "album_loop w cap True (messages album) =
      (Inr (filter (deliverable w) (messages album) = []), sent)"
    and media: "filter is_media_call sent =
      (case filter (deliverable w) (messages album) of
         [] \<Rightarrow> []
       | g # gs \<Rightarrow> media_pair w (Some cap) g @ concat (map (media_pair w None) gs))"
    using album_loop_first [OF assms(3,4), of cap "messages album"]
    by (cases "album_loop w cap True (messages album)") simp
  have calls: "filter is_media_call (snd (process_album w album)) = filter is_media_call sent"
    unfolding process_album_passed [OF assms(1,2)] cap_def [symmetric] loop
    by (simp split: option.splits bool.splits)
  have first: "filter is_media_call (snd (process_album w album)) =
      (case filter (deliverable w) (messages album) of
         [] \<Rightarrow> []
       | g # gs \<Rightarrow> media_pair w (Some cap) g @ concat (map (media_pair w None) gs))"
    using calls media by simp
  have len: "\<And>c ms. \<forall>m\<in>set ms. deliverable w m \<Longrightarrow>
      length (concat (map (media_pair w c) ms)) = 2 * length ms"
  proof -
    fix c ms
    show "\<forall>m\<in>set ms. deliverable w m \<Longrightarrow>
      length (concat (map (media_pair w c) ms)) = 2 * length ms"
      by (induction ms) (simp_all add: media_pair_length [OF _ assms(3)])
  qed
  have second: "length (filter is_media_call (snd (process_album w album))) =
      2 * length (filter (deliverable w) (messages album))"
  proof (cases "filter (deliverable w) (messages album)")
    case Nil
    then show ?thesis using first by simp
  next
    case (Cons g gs)
    have "set (g # gs) = set (filter (deliverable w) (messages album))"
      using Cons by simp
    then have all: "\<forall>m\<in>set (g # gs). deliverable w m"
      by (simp only: set_filter) blast
    then have "length (media_pair w (Some cap) g) = 2"
      by (simp add: media_pair_length [OF _ assms(3)])
    moreover have "length (concat (map (media_pair w None) gs)) = 2 * length gs"
      using all by (intro len) simp
    ultimately show ?thesis using first Cons by simp
  qed
  have third: "(\<forall>m\<in>set before. truthy (msg_text m) = None) \<and> truthy (msg_text x) = Some tx \<longrightarrow>
            first_text (before @ x # after) = Some tx"
    using first_text_found by blast
  show ?thesis using first second third unfolding cap_eq by blast
qed

text \<open>
  C8.  A single message whose media is supported but whose download returns nothing (and
  which the filter does not skip) is forwarded as one text when it has a text, and causes no
  call on the sender otherwise; the outcome is that of the text send, or a plain return.  In
  an album, a member that is unsupported or does not download causes at most its download
  attempt and the loop goes on as if the member were absent.  When that holds for every
  member of an album the filter does not skip, the album is sent as one text when it has a
  text, and nothing is sent otherwise.
\<close>

theorem absent_media_falls_back_to_text:
  "(detect_media m = Some (t, mime, f) \<and> mime \<in> set WA_SUPPORTED_MIMES \<and>
    download_media w m = None \<and> \<not> skipped w (msg_text m) \<longrightarrow>
      forward_single w channel m =
        (case truthy (msg_text m) of
           None \<Rightarrow>
             (Inr (), GetChat (msg_id m) # filter_calls w (msg_text m) @ [DownloadMedia (msg_id m)])
         | Some tx \<Rightarrow>
             (sender_send_text w
                (format_text (local_time w) channel (msg_date m) tx
                   (build_source_link (chat_username w m) (msg_id m))),
              GetChat (msg_id m) # filter_calls w (msg_text m) @
              [DownloadMedia (msg_id m),
               SendText (format_text (local_time w) channel (msg_date m) tx
                 (build_source_link (chat_username w m) (msg_id m)))]))) \<and>
   (\<not> deliverable w x \<longrightarrow>
      album_loop w cap is_first (x # ms) =
        (fst (album_loop w cap is_first ms), fetch_calls x @ snd (album_loop w cap is_first ms))) \<and>
   (messages album = first # others \<and> (\<forall>y\<in>set (messages album). \<not> deliverable w y) \<and>
    \<not> skipped w (first_text (messages album)) \<longrightarrow>
      process_album w album =
        (case first_text (messages album) of
           None \<Rightarrow>
             (Inr (), GetChat (msg_id first) # filter_calls w (first_text (messages album)) @
                      concat (map fetch_calls (messages album)))
         | Some tx \<Rightarrow>
             (sender_send_text w
                (format_text (local_time w) (channel_name album) (msg_date first) tx
                   (build_source_link (chat_username w first) (msg_id first))),
              GetChat (msg_id first) # filter_calls w (first_text (messages album)) @
              concat (map fetch_calls (messages album)) @
              [SendText (format_text (local_time w) (channel_name album) (msg_date first) tx
                 (build_source_link (chat_username w first) (msg_id first)))])))"
proof (intro conjI impI)
  assume a: "detect_media m = Some (t, mime, f) \<and> mime \<in> set WA_SUPPORTED_MIMES \<and>
    download_media w m = None \<and> \<not> skipped w (msg_text m)"
  then have fb: "filter_block w channel (msg_text m)
      (build_source_link (chat_username w m) (msg_id m)) = (None, filter_calls w (msg_text m))"
    by (intro filter_block_passed) simp
  show "forward_single w channel m =
        (case truthy (msg_text m) of
           None \<Rightarrow>
             (Inr (), GetChat (msg_id m) # filter_calls w (msg_text m) @ [DownloadMedia (msg_id m)])
         | Some tx \<Rightarrow>
             (sender_send_text w
                (format_text (local_time w) channel (msg_date m) tx
                   (build_source_link (chat_username w m) (msg_id m))),
              GetChat (msg_id m) # filter_calls w (msg_text m) @
              [DownloadMedia (msg_id m),
               SendText (format_text (local_time w) channel (msg_date m) tx
                 (build_source_link (chat_username w m) (msg_id m)))]))"
    unfolding forward_single_def Let_def fb using a by (simp split: option.splits)
next
  assume "\<not> deliverable w x"
  then show "album_loop w cap is_first (x # ms) =
        (fst (album_loop w cap is_first ms), fetch_calls x @ snd (album_loop w cap is_first ms))"
    by (rule album_loop_excluded)
next
  assume a: "messages album = first # others \<and> (\<forall>y\<in>set (messages album). \<not> deliverable w y) \<and>
    \<not> skipped w (first_text (messages album))"
  then have msgs: "messages album = first # others"
    and none: "\<forall>y\<in>set (messages album). \<not> deliverable w y"
    and pass: "\<not> skipped w (first_text (messages album))" by blast+
  show "process_album w album =
        (case first_text (messages album) of
           None \<Rightarrow>
             (Inr (), GetChat (msg_id first) # filter_calls w (first_text (messages album)) @
                      concat (map fetch_calls (messages album)))
         | Some tx \<Rightarrow>
             (sender_send_text w
                (format_text (local_time w) (channel_name album) (msg_date first) tx
                   (build_source_link (chat_username w first) (msg_id first))),
              GetChat (msg_id first) # filter_calls w (first_text (messages album)) @
              concat (map fetch_calls (messages album)) @
              [SendText (format_text (local_time w) (channel_name album) (msg_date first) tx
                 (build_source_link (chat_username w first) (msg_id first)))]))"
    unfolding process_album_passed [OF msgs pass] album_loop_all_excluded [OF none]
    by (simp split: option.splits)
qed

lemma detect_photo [simp]:
  "detect_media (photo_msg i t) = Some (str ''image'', str ''image/jpeg'', str ''photo.jpg'')"
  by (simp add: detect_media_def photo_msg_def)

lemma jpeg_supported [simp]: "str ''image/jpeg'' \<in> set WA_SUPPORTED_MIMES"
  by (simp add: WA_SUPPORTED_MIMES_def)

lemma photo_msg_sel [simp]:
  "msg_id (photo_msg i t) = i" "msg_text (photo_msg i t) = t" "msg_date (photo_msg i t) = 0"
  by (simp_all add: photo_msg_def)

lemma wit_world_sel [simp]:
  "chat_username wit_world m = Some (str ''chan'')"
  "download_media wit_world m = (if msg_id m = 3 then None else Some [nat (msg_id m)])"
  "content_filter wit_world = Some wit_filter"
  "sender_send_text wit_world tx = Inr ()"
  "sender_upload_media wit_world b mime f = Inr (str ''media-1'')"
  "sender_send_media wit_world ty i c = Inr ()"
  "local_time wit_world ts = str ''2026-02-13 14:30''"
  by (simp_all add: wit_world_def)

lemma truthy_str [simp]: "truthy (Some (str (c # cs))) = Some (str (c # cs))"
  by (simp add: truthy_def str_def)

lemma truthy_None [simp]: "truthy None = None"
  by (simp add: truthy_def)

lemma link_chan [simp]:
  "build_source_link (Some (str ''chan'')) i = Some (str ''https://t.me/chan/'' @ str_of_int i)"
  by (simp add: build_source_link_def) (simp add: str_def)

theorem skip_sends_only_notice_witness:
  "forward_single wit_world (str ''Ch'') (photo_msg 42 (Some (str ''buy now''))) =
     (Inr (),
      [GetChat 42, Evaluate (str ''buy now''),
       SendText (str ''[Skipped from Ch] (ads) promotion'' @ [NL] @ str ''https://t.me/chan/42'')]) \<and>
   process_album wit_world
     \<lparr>channel_name = str ''Ch'',
      messages = [photo_msg 1 None, photo_msg 2 (Some (str ''buy now''))], timer = None\<rparr> =
     (Inr (),
      [GetChat 1, Evaluate (str ''buy now''),
       SendText (str ''[Skipped from Ch] (ads) promotion'' @ [NL] @ str ''https://t.me/chan/1'')]) \<and>
   build_source_link (Some (str ''chan'')) 42 = Some (str ''https://t.me/chan/42'')"
  using skip_sends_only_notice [of "photo_msg 42 (Some (str ''buy now''))" "str ''buy now''"
      wit_world wit_filter "str ''Ch''"
      "\<lparr>channel_name = str ''Ch'',
        messages = [photo_msg 1 None, photo_msg 2 (Some (str ''buy now''))], timer = None\<rparr>"
      "photo_msg 1 None" "[photo_msg 2 (Some (str ''buy now''))]"
      "Some (str ''chan'')" "str ''chan''" 42]
  by (simp add: wit_filter_def notice_text_def str_of_int_def) (simp add: str_def)

theorem absent_media_falls_back_to_text_witness:
  "forward_single wit_world (str ''Ch'') (photo_msg 3 (Some (str ''caption''))) =
     (Inr (),
      [GetChat 3, Evaluate (str ''caption''), DownloadMedia 3,
       SendText (str ''[Ch] 2026-02-13 14:30'' @ [NL] @ str ''https://t.me/chan/3'' @ [NL, NL] @
                 str ''caption'')]) \<and>
   forward_single wit_world (str ''Ch'') (photo_msg 3 None) = (Inr (), [GetChat 3, DownloadMedia 3]) \<and>
   album_loop wit_world (str ''cap'') True [photo_msg 3 None, photo_msg 4 None] =
     (fst (album_loop wit_world (str ''cap'') True [photo_msg 4 None]),
      DownloadMedia 3 # snd (album_loop wit_world (str ''cap'') True [photo_msg 4 None])) \<and>
   process_album wit_world
     \<lparr>channel_name = str ''Ch'', messages = [photo_msg 3 (Some (str ''hi''))], timer = None\<rparr> =
     (Inr (),
      [GetChat 3, Evaluate (str ''hi''), DownloadMedia 3,
       SendText (str ''[Ch] 2026-02-13 14:30'' @ [NL] @ str ''https://t.me/chan/3'' @ [NL, NL] @
                 str ''hi'')]) \<and>
   process_album wit_world
     \<lparr>channel_name = str ''Ch'', messages = [photo_msg 3 None], timer = None\<rparr> =
     (Inr (), [GetChat 3, DownloadMedia 3])"
  using absent_media_falls_back_to_text [where m = "photo_msg 3 (Some (str ''caption''))"
      and t = "str ''image''" and mime = "str ''image/jpeg''" and f = "str ''photo.jpg''"
      and w = wit_world and channel = "str ''Ch''" and x = "photo_msg 3 None" and cap = "str ''cap''"
      and is_first = True and ms = "[photo_msg 4 None]"
      and album = "\<lparr>channel_name = str ''Ch'', messages = [photo_msg 3 (Some (str ''hi''))],
                    timer = None\<rparr>"
      and first = "photo_msg 3 (Some (str ''hi''))" and others = "[]"]
    absent_media_falls_back_to_text [where m = "photo_msg 3 None"
      and t = "str ''image''" and mime = "str ''image/jpeg''" and f = "str ''photo.jpg''"
      and w = wit_world and channel = "str ''Ch''" and x = "photo_msg 3 None" and cap = "str ''cap''"
      and is_first = True and ms = "[photo_msg 4 None]"
      and album = "\<lparr>channel_name = str ''Ch'', messages = [photo_msg 3 None], timer = None\<rparr>"
      and first = "photo_msg 3 None" and others = "[]"]
  by (simp add: skipped_def filter_calls_def deliverable_def fetch_calls_def wit_filter_def
        format_text_def format_header_def str_of_int_def Let_def)
     (simp add: str_def truthy_def)

theorem album_media_pairs_witness:
  "filter is_media_call (snd (process_album wit_world
     \<lparr>channel_name = str ''Ch'',
      messages = [photo_msg 1 None, photo_msg 2 (Some (str ''hello'')), photo_msg 3 None,
                  photo_msg 4 None],
      timer = None\<rparr>)) =
     [UploadMedia [1] (str ''image/jpeg'') (str ''photo.jpg''),
      SendMedia (str ''image'') (str ''media-1'')
        (Some (str ''[Ch] 2026-02-13 14:30'' @ [NL] @ str ''https://t.me/chan/1'' @ [NL, NL] @
               str ''hello'')),
      UploadMedia [2] (str ''image/jpeg'') (str ''photo.jpg''),
      SendMedia (str ''image'') (str ''media-1'') None,
      UploadMedia [4] (str ''image/jpeg'') (str ''photo.jpg''),
      SendMedia (str ''image'') (str ''media-1'') None] \<and>
   first_text [photo_msg 1 None, photo_msg 2 (Some (str ''hello'')), photo_msg 3 None] =
     Some (str ''hello'')"
  using album_media_pairs [where album = "\<lparr>channel_name = str ''Ch'',
      messages = [photo_msg 1 None, photo_msg 2 (Some (str ''hello'')), photo_msg 3 None,
                  photo_msg 4 None],
      timer = None\<rparr>" and first = "photo_msg 1 None"
      and others = "[photo_msg 2 (Some (str ''hello'')), photo_msg 3 None, photo_msg 4 None]"
      and w = wit_world and before = "[photo_msg 1 None]"
      and x = "photo_msg 2 (Some (str ''hello''))" and tx = "str ''hello''"
      and after = "[photo_msg 3 None]"]
  by (simp add: skipped_def deliverable_def media_pair_def wit_filter_def str_of_int_def)
     (simp add: str_def truthy_def)

text \<open>
  When the upload raises, an album of two photos that are supported and download gives one
  upload and no media send.
\<close>

theorem album_upload_raises:
  "filter (deliverable upload_raises) (messages two_photos) = [photo_msg 1 None, photo_msg 2 None] \<and>
   \<not> skipped upload_raises (first_text (messages two_photos)) \<and>
   process_album upload_raises two_photos =
     (Inl HTTPStatusError,
      [GetChat 1, DownloadMedia 1, UploadMedia [1] (str ''image/jpeg'') (str ''photo.jpg'')])"
  by (simp add: two_photos_def upload_raises_def deliverable_def skipped_def process_album_def
        filter_block_def Let_def)

subsection \<open>The pending albums\<close>


lemma flush_album_rest:
  "timers (fst (flush_album w r gid)) = timers r"
  "next_timer (fst (flush_album w r gid)) = next_timer r"
  by (simp_all add: flush_album_def Let_def split: option.splits prod.splits)






























lemma filter_calls_no_download [simp]: "filter is_download (filter_calls w tx) = []"
  by (simp add: filter_calls_def split: option.splits)






lemma album_msg_sel [simp]:
  "grouped_id (album_msg i g t) = Some g" "msg_id (album_msg i g t) = i"
  "msg_text (album_msg i g t) = t" "msg_date (album_msg i g t) = 0"
  "detect_media (album_msg i g t) = Some (str ''image'', str ''image/jpeg'', str ''photo.jpg'')"
  by (simp_all add: album_msg_def photo_msg_def detect_media_def)







end
